theory Spec2Isabelle
  imports Complex_Main
begin

section \<open>Data model of midi\_to\_tja.py\<close>

text \<open>
  Python integers are unbounded, so every integer field is an \<open>int\<close>. A mido message
  is a tagged union; only the four message types the converter looks at are kept.
  \<open>NoteOff\<close> carries a velocity because mido's \<open>Message('note_off', ...)\<close> has one
  (default 64); the converter never reads it. The field \<open>msg.note\<close> is called
  \<open>pitch\<close> here, \<open>note\<close> being a keyword of the proof language.
\<close>

datatype message =
    TimeSignature (numerator: int) (denominator: int)
  | SetTempo (tempo: int)
  | NoteOn (channel: int) (pitch: int) (velocity: int)
  | NoteOff (channel: int) (pitch: int) (velocity: int)

text \<open>The dataclass \<open>ChartEvent\<close>; the last three fields default to \<open>-1\<close>.\<close>

record ChartEvent =
  msg :: message
  tick_abs :: int
  tick_end_abs :: int
  usec_abs :: int
  usec_end_abs :: int

definition mk_event :: "message \<Rightarrow> int \<Rightarrow> ChartEvent" where
  "mk_event m t =
     \<lparr>msg = m, tick_abs = t, tick_end_abs = - 1, usec_abs = - 1, usec_end_abs = - 1\<rparr>"

text \<open>
  The class \<open>ChartState\<close>. The Python list \<open>balloons\<close> holds references to event
  objects of the timeline being scanned, which the scan also mutates in place. The
  timeline is therefore the object store, and \<open>balloons\<close> is a list of addresses
  (indices into the timeline), \<open>None\<close> as in the source until the first balloon.
\<close>

record ChartState =
  ticks_per_beat :: int
  tsign_upper :: int
  tsign_lower :: int
  usec_per_beat :: int
  i_measure_begin :: int
  tick_measure_begin :: int
  tick_checkpoint :: int
  usec_checkpoint :: int
  balloons :: "nat list option"

text \<open>\<open>ChartState.__init__\<close>; \<open>bpm2tempo(120)\<close> of mido is 500000.\<close>

definition init_state :: "int \<Rightarrow> ChartState" where
  "init_state tpb =
     \<lparr>ticks_per_beat = tpb, tsign_upper = 4, tsign_lower = 4, usec_per_beat = 500000,
      i_measure_begin = 0, tick_measure_begin = 0, tick_checkpoint = 0,
      usec_checkpoint = 0, balloons = None\<rparr>"

text \<open>The exceptions the scanned code can raise.\<close>

datatype error = ZeroDivisionError | IndexError

definition bind_err :: "error + 'a \<Rightarrow> ('a \<Rightarrow> error + 'b) \<Rightarrow> error + 'b" where
  "bind_err m f = (case m of Inl e \<Rightarrow> Inl e | Inr x \<Rightarrow> f x)"

section \<open>Note symbols\<close>

definition KNOWN_NOTES :: string where "KNOWN_NOTES = ''012345679ABCDFGHI''"
definition LONG_NOTES :: string where "LONG_NOTES = ''5679DHI''"

definition is_known_note :: "char \<Rightarrow> bool" where
  "is_known_note symb = (symb \<in> set KNOWN_NOTES)"

definition is_long_note :: "char \<Rightarrow> bool" where
  "is_long_note symb = (symb \<in> set LONG_NOTES)"


section \<open>Timing model\<close>

text \<open>
  Python's \<open>//\<close> is floor division, as \<open>div\<close> on \<open>int\<close> is, but it raises
  \<open>ZeroDivisionError\<close> where HOL returns 0.
\<close>

definition floordiv :: "int \<Rightarrow> int \<Rightarrow> error + int" where
  "floordiv a b = (if b = 0 then Inl ZeroDivisionError else Inr (a div b))"

definition get_ticks_per_measure :: "ChartState \<Rightarrow> error + int" where
  "get_ticks_per_measure s =
     bind_err (floordiv (ticks_per_beat s * 4 * tsign_upper s) (tsign_lower s))
       (\<lambda>q. Inr (max 1 q))"

definition get_tick_measure_end :: "ChartState \<Rightarrow> error + int" where
  "get_tick_measure_end s =
     bind_err (get_ticks_per_measure s) (\<lambda>n. Inr (tick_measure_begin s + n))"

definition get_usec_at :: "ChartState \<Rightarrow> int \<Rightarrow> error + int" where
  "get_usec_at s tick =
     bind_err (floordiv ((tick - tick_checkpoint s) * usec_per_beat s) (ticks_per_beat s))
       (\<lambda>q. Inr (usec_checkpoint s + q))"

definition advance_usec :: "ChartState \<Rightarrow> int \<Rightarrow> error + ChartState" where
  "advance_usec s tick =
     bind_err (get_usec_at s tick)
       (\<lambda>u. Inr (s\<lparr>usec_checkpoint := u, tick_checkpoint := tick\<rparr>))"

definition advance_measure :: "ChartState \<Rightarrow> error + ChartState" where
  "advance_measure s =
     bind_err (get_tick_measure_end s) (\<lambda>t. Inr (s\<lparr>tick_measure_begin := t\<rparr>))"

text \<open>
  The two statements of the \<open>set_tempo\<close> branch of \<open>scan_measure\<close> that touch the
  timing state: re-anchor at the event's tick, then switch the tempo.
\<close>

definition apply_set_tempo :: "ChartState \<Rightarrow> int \<Rightarrow> int \<Rightarrow> error + ChartState" where
  "apply_set_tempo s tick t =
     bind_err (advance_usec s tick) (\<lambda>s'. Inr (s'\<lparr>usec_per_beat := t\<rparr>))"


section \<open>Output of a scan\<close>

text \<open>
  Every call of \<open>emit\<close> in \<open>scan_measure\<close> is one item: a run of cells printed with
  \<open>end=''\<close>, the empty line of \<open>ensure_line_start\<close>, the two directive lines and the
  measure terminator \<open>','\<close>. The sink \<open>tja\<close> is \<open>None\<close> for the silent pass (\<open>emit\<close>
  does nothing) and otherwise holds what has been printed so far.
\<close>

datatype emitted =
    Cells string
  | Newline
  | MeasureLine int int
  | BpmChangeLine rat
  | MeasureEnd

type_synonym sink = "emitted list option"

definition emit :: "sink \<Rightarrow> emitted \<Rightarrow> sink" where
  "emit tja x = (case tja of None \<Rightarrow> None | Some out \<Rightarrow> Some (out @ [x]))"

text \<open>
  \<open>tempo2bpm\<close> belongs to mido: \<open>60 * 1e6 / tempo\<close>, a float division that raises on
  tempo 0. The f-string holding it is evaluated before \<open>emit\<close> is called, in both passes.
\<close>

definition tempo2bpm :: "int \<Rightarrow> error + rat" where
  "tempo2bpm t = (if t = 0 then Inl ZeroDivisionError else Inr (60000000 / of_int t))"

section \<open>Measure quantizer: \<open>scan_measure\<close>\<close>

text \<open>The comprehension building \<open>tick_rels\<close>, with the measure length as last element.\<close>

definition tick_rels_of :: "ChartEvent list \<Rightarrow> nat \<Rightarrow> nat \<Rightarrow> int \<Rightarrow> int \<Rightarrow> int list" where
  "tick_rels_of events lo hi tick_beg tick_end =
     map (\<lambda>i. tick_abs (events ! i) - tick_beg)
       (filter (\<lambda>i. tick_abs (events ! i) > tick_beg) [lo..<hi])
     @ [tick_end - tick_beg]"

text \<open>
  The in-place pass "remove duplications": \<open>l\<close> is the write position, \<open>r\<close> runs over
  \<open>range(1, len(tick_rels))\<close>, and the list is cut after position \<open>l\<close>.
\<close>

definition dedup_step :: "int list \<times> nat \<Rightarrow> nat \<Rightarrow> int list \<times> nat" where
  "dedup_step acc r =
     (case acc of (xs, l) \<Rightarrow>
        if xs ! r \<noteq> xs ! l then (xs[Suc l := xs ! r], Suc l) else (xs, l))"

definition remove_duplications :: "int list \<Rightarrow> int list" where
  "remove_duplications xs =
     (case fold (\<lambda>r acc. dedup_step acc r) [1..<length xs] (xs, 0) of
        (ys, l) \<Rightarrow> take (Suc l) ys)"

text \<open>\<open>math.gcd(*tick_rels)\<close>: the non-negative gcd of all arguments, 0 for none.\<close>

definition py_gcd :: "int list \<Rightarrow> int" where
  "py_gcd xs = fold gcd xs 0"

text \<open>The quantization unit \<open>tick_gcd\<close> of a measure, as \<open>scan_measure\<close> computes it.\<close>

definition tick_gcd_of :: "ChartEvent list \<Rightarrow> nat \<Rightarrow> nat \<Rightarrow> int \<Rightarrow> int \<Rightarrow> int" where
  "tick_gcd_of events lo hi tick_beg tick_end =
     py_gcd (remove_duplications (tick_rels_of events lo hi tick_beg tick_end))"

text \<open>The local variables of \<open>scan_measure\<close> that its event loop changes.\<close>

record measure_loop =
  ml_state :: ChartState
  ml_events :: "ChartEvent list"
  ml_tja :: sink
  is_line_start :: bool
  idiv_last :: int
  note_symbol_last :: char

definition ensure_line_start :: "measure_loop \<Rightarrow> measure_loop" where
  "ensure_line_start L =
     (if \<not> is_line_start L then L\<lparr>ml_tja := emit (ml_tja L) Newline\<rparr> else L)
       \<lparr>is_line_start := True\<rparr>"

text \<open>\<open>note_symbol_last + (idiv - idiv_last - 1) * '0'\<close>; a negative count gives no zeros.\<close>

definition cell_run :: "char \<Rightarrow> int \<Rightarrow> int \<Rightarrow> string" where
  "cell_run symb idiv idiv_l = symb # replicate (nat (idiv - idiv_l - 1)) (CHR ''0'')"

text \<open>\<open>self.balloons is not None and self.balloons[-1].usec_end_abs < 0\<close>\<close>

definition balloon_open :: "ChartState \<Rightarrow> ChartEvent list \<Rightarrow> error + bool" where
  "balloon_open s events =
     (case balloons s of
        None \<Rightarrow> Inr False
      | Some bs \<Rightarrow> if bs = [] then Inl IndexError
                   else Inr (usec_end_abs (events ! last bs) < 0))"

text \<open>
  The body of the loop \<open>for ievent in ievents\<close>, in its two halves: first the cells up
  to the event's own cell are printed (\<open>if idiv > idiv_last\<close>), then the event is
  handled by the \<open>if\<close>/\<open>elif\<close> chain on its message type.
\<close>

definition advance_cells :: "measure_loop \<Rightarrow> int \<Rightarrow> measure_loop" where
  "advance_cells L idiv =
     (if idiv > idiv_last L
      then L\<lparr>ml_tja := emit (ml_tja L) (Cells (cell_run (note_symbol_last L) idiv (idiv_last L))),
             is_line_start := False,
             note_symbol_last := CHR ''0'',
             idiv_last := idiv\<rparr>
      else L)"

definition handle_event :: "char \<Rightarrow> measure_loop \<Rightarrow> nat \<Rightarrow> ChartEvent \<Rightarrow> error + measure_loop" where
  "handle_event NOTE_SYMBOL L ievent e =
     (let s = ml_state L
      in case msg e of
           TimeSignature n d \<Rightarrow>
             (let L1 = ensure_line_start (L\<lparr>ml_state := s\<lparr>tsign_upper := n, tsign_lower := d\<rparr>\<rparr>)
              in Inr (L1\<lparr>ml_tja := emit (ml_tja L1) (MeasureLine n d)\<rparr>))
         | SetTempo t \<Rightarrow>
             bind_err (apply_set_tempo s (tick_abs e) t) (\<lambda>s'.
               let L1 = ensure_line_start (L\<lparr>ml_state := s'\<rparr>)
               in bind_err (tempo2bpm (usec_per_beat s')) (\<lambda>bpm.
                    Inr (L1\<lparr>ml_tja := emit (ml_tja L1) (BpmChangeLine bpm)\<rparr>)))
         | NoteOn c p v \<Rightarrow>
             if \<not> is_long_note NOTE_SYMBOL then
               bind_err (get_usec_at s (tick_abs e)) (\<lambda>u.
                 Inr (L\<lparr>note_symbol_last := NOTE_SYMBOL,
                        ml_events := (ml_events L)[ievent := e\<lparr>usec_abs := u, usec_end_abs := - 1\<rparr>]\<rparr>))
             else
               bind_err (balloon_open s (ml_events L)) (\<lambda>opened.
                 if \<not> opened then
                   bind_err (get_usec_at s (tick_abs e)) (\<lambda>u.
                     Inr (L\<lparr>note_symbol_last := NOTE_SYMBOL,
                            ml_events := (ml_events L)[ievent := e\<lparr>usec_abs := u, usec_end_abs := - 1\<rparr>],
                            ml_state := s\<lparr>balloons :=
                              Some ((case balloons s of None \<Rightarrow> [] | Some bs \<Rightarrow> bs) @ [ievent])\<rparr>\<rparr>))
                 else Inr L)
         | NoteOff c p v \<Rightarrow>
             if is_long_note NOTE_SYMBOL then
               bind_err (balloon_open s (ml_events L)) (\<lambda>opened.
                 if opened then
                   bind_err (get_usec_at s (tick_abs e)) (\<lambda>u.
                     let b = last (the (balloons s))
                     in Inr (L\<lparr>note_symbol_last := CHR ''8'',
                               ml_events := (ml_events L)[b := (ml_events L ! b)\<lparr>usec_end_abs := u\<rparr>]\<rparr>))
                 else Inr L)
             else Inr L)"

definition scan_event :: "char \<Rightarrow> int \<Rightarrow> int \<Rightarrow> measure_loop \<Rightarrow> nat \<Rightarrow> error + measure_loop" where
  "scan_event NOTE_SYMBOL tick_beg tick_gcd L ievent =
     (let e = ml_events L ! ievent;
          tick_rel = tick_abs e - tick_beg
      in bind_err (floordiv tick_rel tick_gcd) (\<lambda>idiv.
           handle_event NOTE_SYMBOL (advance_cells L idiv) ievent e))"

fun scan_events :: "char \<Rightarrow> int \<Rightarrow> int \<Rightarrow> measure_loop \<Rightarrow> nat list \<Rightarrow> error + measure_loop" where
  "scan_events NOTE_SYMBOL tick_beg tick_gcd L [] = Inr L"
| "scan_events NOTE_SYMBOL tick_beg tick_gcd L (i # ievents) =
     bind_err (scan_event NOTE_SYMBOL tick_beg tick_gcd L i)
       (\<lambda>L'. scan_events NOTE_SYMBOL tick_beg tick_gcd L' ievents)"

text \<open>
  \<open>scan_measure(events, range(lo, hi), tja)\<close>. Reading \<open>events[i]\<close> past the end of the
  list raises \<open>IndexError\<close>; \<open>scan_chart\<close> never asks for that.
\<close>

definition scan_measure ::
  "char \<Rightarrow> ChartState \<Rightarrow> ChartEvent list \<Rightarrow> nat \<Rightarrow> nat \<Rightarrow> sink
     \<Rightarrow> error + (ChartState \<times> ChartEvent list \<times> sink)" where
  "scan_measure NOTE_SYMBOL s events lo hi tja =
     (let tick_beg = tick_measure_begin s
      in bind_err (get_tick_measure_end s) (\<lambda>tick_end.
         if lo < hi \<and> length events < hi then Inl IndexError
         else
           let tick_gcd = tick_gcd_of events lo hi tick_beg tick_end;
               L0 = \<lparr>ml_state = s, ml_events = events, ml_tja = tja, is_line_start = True,
                     idiv_last = 0, note_symbol_last = CHR ''0''\<rparr>
           in bind_err (scan_events NOTE_SYMBOL tick_beg tick_gcd L0 [lo..<hi]) (\<lambda>L.
              bind_err (floordiv (tick_end - tick_beg) tick_gcd) (\<lambda>idiv.
                let tja1 = (if hi > lo \<and> idiv > idiv_last L
                            then emit (ml_tja L)
                                   (Cells (cell_run (note_symbol_last L) idiv (idiv_last L)))
                            else ml_tja L)
                in Inr (ml_state L, ml_events L, emit tja1 MeasureEnd)))))"

section \<open>\<open>scan_chart\<close>\<close>

text \<open>
  The inner loop \<open>while self.get_tick_measure_end() <= e.tick_abs\<close> for the event at
  index \<open>i\<close>, whose tick \<open>t\<close> no scan changes; \<open>i_begin\<close> is the local variable
  \<open>i_measure_begin\<close> of \<open>scan_chart\<close> (the field of that name is never used). Nothing in its text bounds the number of
  rounds, so it is a partial function: \<open>None\<close> would be a loop that never ends.
\<close>

partial_function (option) step_over_measures ::
  "char \<Rightarrow> int \<Rightarrow> nat \<Rightarrow> ChartState \<Rightarrow> ChartEvent list \<Rightarrow> sink \<Rightarrow> nat
     \<Rightarrow> (error + (ChartState \<times> ChartEvent list \<times> sink \<times> nat)) option" where
  "step_over_measures NOTE_SYMBOL t i s events tja i_begin =
     (case get_tick_measure_end s of
        Inl err \<Rightarrow> Some (Inl err)
      | Inr tick_end \<Rightarrow>
          if tick_end \<le> t then
            (case scan_measure NOTE_SYMBOL s events i_begin i tja of
               Inl err \<Rightarrow> Some (Inl err)
             | Inr (s1, events1, tja1) \<Rightarrow>
                 (case advance_measure s1 of
                    Inl err \<Rightarrow> Some (Inl err)
                  | Inr s2 \<Rightarrow> step_over_measures NOTE_SYMBOL t i s2 events1 tja1 i))
          else Some (Inr (s, events, tja, i_begin)))"

declare step_over_measures.simps [code]

text \<open>"sync with measure-initial time signature changes"\<close>

definition sync_time_signature :: "ChartState \<Rightarrow> ChartEvent \<Rightarrow> ChartState" where
  "sync_time_signature s e =
     (if tick_abs e = tick_measure_begin s then
        (case msg e of
           TimeSignature n d \<Rightarrow> s\<lparr>tsign_upper := n, tsign_lower := d\<rparr>
         | _ \<Rightarrow> s)
      else s)"

text \<open>The body of \<open>for i, e in enumerate(events)\<close>, then the loop itself.\<close>

definition chart_event ::
  "char \<Rightarrow> ChartState \<Rightarrow> ChartEvent list \<Rightarrow> sink \<Rightarrow> nat \<Rightarrow> nat
     \<Rightarrow> (error + (ChartState \<times> ChartEvent list \<times> sink \<times> nat)) option" where
  "chart_event NOTE_SYMBOL s events tja i_begin i =
     (let e = events ! i
      in case step_over_measures NOTE_SYMBOL (tick_abs e) i s events tja i_begin of
           None \<Rightarrow> None
         | Some (Inl err) \<Rightarrow> Some (Inl err)
         | Some (Inr (s1, events1, tja1, imb1)) \<Rightarrow>
             Some (Inr (sync_time_signature s1 e, events1, tja1, imb1)))"

fun chart_events ::
  "char \<Rightarrow> ChartState \<Rightarrow> ChartEvent list \<Rightarrow> sink \<Rightarrow> nat \<Rightarrow> nat list
     \<Rightarrow> (error + (ChartState \<times> ChartEvent list \<times> sink \<times> nat)) option" where
  "chart_events NOTE_SYMBOL s events tja i_begin [] =
     Some (Inr (s, events, tja, i_begin))"
| "chart_events NOTE_SYMBOL s events tja i_begin (i # rest) =
     (case chart_event NOTE_SYMBOL s events tja i_begin i of
        None \<Rightarrow> None
      | Some (Inl err) \<Rightarrow> Some (Inl err)
      | Some (Inr (s1, events1, tja1, imb1)) \<Rightarrow>
          chart_events NOTE_SYMBOL s1 events1 tja1 imb1 rest)"

definition scan_chart ::
  "char \<Rightarrow> ChartState \<Rightarrow> ChartEvent list \<Rightarrow> sink
     \<Rightarrow> (error + (ChartState \<times> ChartEvent list \<times> sink)) option" where
  "scan_chart NOTE_SYMBOL s events tja =
     (case chart_events NOTE_SYMBOL s events tja 0 [0..<length events] of
        None \<Rightarrow> None
      | Some (Inl err) \<Rightarrow> Some (Inl err)
      | Some (Inr (s1, events1, tja1, imb1)) \<Rightarrow>
          Some (scan_measure NOTE_SYMBOL s1 events1 imb1 (length events1) tja1))"

section \<open>Lane assignor: \<open>note_on\<close>, \<open>note_off\<close> and the loops of \<open>main\<close>\<close>

text \<open>
  The event objects made by \<open>note_on\<close> are shared between the slot lists \<open>on_notes\<close>
  and the lanes \<open>note_events\<close>, and are changed in place through either. They live in
  a heap (a list, the address of an object being its index); slots and lanes hold
  addresses. \<open>note_events\<close> is an insertion-ordered dictionary, kept as an association
  list.
\<close>

record assigner =
  heap :: "ChartEvent list"
  on_notes :: "int \<rightharpoonup> nat list"
  note_events :: "((int \<times> nat) \<times> nat list) list"

definition empty_assigner :: assigner where
  "empty_assigner = \<lparr>heap = [], on_notes = Map.empty, note_events = []\<rparr>"

text \<open>\<open>d.setdefault(k, []).append(v)\<close>\<close>

fun dict_append :: "'k \<Rightarrow> 'v \<Rightarrow> ('k \<times> 'v list) list \<Rightarrow> ('k \<times> 'v list) list" where
  "dict_append k v [] = [(k, [v])]"
| "dict_append k v ((k', vs) # d) =
     (if k' = k then (k', vs @ [v]) # d else (k', vs) # dict_append k v d)"

text \<open>
  \<open>ticks_gap\<close>: \<open>int(4 * ticks_per_beat * long_gap)\<close> for a long note symbol, else 0;
  \<open>int\<close> of a \<open>Fraction\<close> truncates towards zero.
\<close>

definition ticks_gap_of :: "char \<Rightarrow> int \<Rightarrow> rat \<Rightarrow> int" where
  "ticks_gap_of NOTE_SYMBOL tpb long_gap =
     (if is_long_note NOTE_SYMBOL
      then (let q = 4 * of_int tpb * long_gap in if 0 \<le> q then \<lfloor>q\<rfloor> else \<lceil>q\<rceil>)
      else 0)"

text \<open>"cut same note": the copy \<open>e_\<close> of an occupant \<open>e\<close>, as the loop of \<open>note_on\<close> makes it.\<close>

definition cut_same_note :: "int \<Rightarrow> int \<Rightarrow> int \<Rightarrow> ChartEvent \<Rightarrow> ChartEvent" where
  "cut_same_note ticks_gap tick n e =
     (if pitch (msg e) = n then
        (let e1 = (if usec_end_abs e = - 1
                   then e\<lparr>tick_end_abs := tick, usec_end_abs := - 2\<rparr> else e)
         in e1\<lparr>tick_end_abs :=
                 max (tick_abs e1 + ticks_gap) (min (tick_end_abs e1) (tick - ticks_gap))\<rparr>)
      else e)"

text \<open>"check if free"\<close>

definition slot_free :: "int \<Rightarrow> ChartEvent \<Rightarrow> bool" where
  "slot_free tick e' = (usec_end_abs e' \<noteq> - 1 \<and> tick > tick_end_abs e')"

text \<open>
  The loop \<open>for i, e in enumerate(channel_on_notes)\<close> up to its \<open>break\<close>: the index of
  the slot found free and the copy \<open>e_\<close> of its occupant, or \<open>None\<close> for the \<open>else\<close>
  branch of the loop.
\<close>

fun find_free_slot ::
  "int \<Rightarrow> int \<Rightarrow> int \<Rightarrow> ChartEvent list \<Rightarrow> nat list \<Rightarrow> nat \<Rightarrow> (nat \<times> ChartEvent) option" where
  "find_free_slot ticks_gap tick n h [] i = None"
| "find_free_slot ticks_gap tick n h (a # slots) i =
     (let e' = cut_same_note ticks_gap tick n (h ! a)
      in if slot_free tick e' then Some (i, e')
         else find_free_slot ticks_gap tick n h slots (Suc i))"

definition note_on :: "char \<Rightarrow> int \<Rightarrow> assigner \<Rightarrow> message \<Rightarrow> int \<Rightarrow> assigner" where
  "note_on NOTE_SYMBOL ticks_gap A m tick =
     (let channel_on_notes = (case on_notes A (channel m) of None \<Rightarrow> [] | Some l \<Rightarrow> l);
          event = (mk_event m tick)\<lparr>tick_end_abs := tick + ticks_gap, usec_end_abs := - 1\<rparr>;
          a = length (heap A);
          heap1 = heap A @ [event]
      in case find_free_slot ticks_gap tick (pitch m) (heap A) channel_on_notes 0 of
           Some (i, e') \<Rightarrow>
             (let old = channel_on_notes ! i;
                  heap2 = heap1[old := (heap1 ! old)\<lparr>tick_end_abs := tick_end_abs e',
                                                     usec_end_abs := usec_end_abs e'\<rparr>];
                  A1 = A\<lparr>heap := heap2,
                         on_notes := (on_notes A)(channel m \<mapsto> channel_on_notes[i := a])\<rparr>
              in if is_long_note NOTE_SYMBOL \<or> i = 0
                 then A1\<lparr>note_events := dict_append (channel m, i) a (note_events A1)\<rparr>
                 else A1)
         | None \<Rightarrow>
             (let polypos = length channel_on_notes;
                  A1 = A\<lparr>heap := heap1,
                         on_notes := (on_notes A)(channel m \<mapsto>
                           (if is_long_note NOTE_SYMBOL then channel_on_notes @ [a]
                            else channel_on_notes))\<rparr>
              in if is_long_note NOTE_SYMBOL \<or> polypos = 0
                 then A1\<lparr>note_events := dict_append (channel m, polypos) a (note_events A1)\<rparr>
                 else A1))"

text \<open>
  \<open>note_off\<close>: the slots are searched from the last to the first for an occupant that
  is open and has the pitch; the first one found is closed.
\<close>

definition note_off :: "int \<Rightarrow> assigner \<Rightarrow> message \<Rightarrow> int \<Rightarrow> assigner" where
  "note_off ticks_gap A m tick =
     (case on_notes A (channel m) of
        None \<Rightarrow> A
      | Some channel_on_notes \<Rightarrow>
          (case find (\<lambda>a. usec_end_abs (heap A ! a) = - 1 \<and> pitch (msg (heap A ! a)) = pitch m)
                  (rev channel_on_notes) of
             None \<Rightarrow> A
           | Some a \<Rightarrow>
               A\<lparr>heap := (heap A)[a := (heap A ! a)
                    \<lparr>tick_end_abs := max (tick_abs (heap A ! a) + ticks_gap) tick,
                     usec_end_abs := - 2\<rparr>]\<rparr>))"

text \<open>The body of \<open>for e in raw_note_events\<close>, and the loop.\<close>

definition raw_note_event :: "char \<Rightarrow> int \<Rightarrow> assigner \<Rightarrow> ChartEvent \<Rightarrow> assigner" where
  "raw_note_event NOTE_SYMBOL ticks_gap A e =
     (case msg e of
        NoteOn c p v \<Rightarrow>
          if v > 0 then
            (let A1 = note_on NOTE_SYMBOL ticks_gap A (msg e) (tick_abs e)
             in if \<not> is_long_note NOTE_SYMBOL then note_off ticks_gap A1 (msg e) (tick_abs e)
                else A1)
          else if is_long_note NOTE_SYMBOL then note_off ticks_gap A (msg e) (tick_abs e)
          else A
      | NoteOff c p v \<Rightarrow>
          if is_long_note NOTE_SYMBOL then note_off ticks_gap A (msg e) (tick_abs e) else A
      | _ \<Rightarrow> A)"

definition assign_lanes :: "char \<Rightarrow> int \<Rightarrow> ChartEvent list \<Rightarrow> assigner" where
  "assign_lanes NOTE_SYMBOL ticks_gap raw_note_events =
     fold (\<lambda>e A. raw_note_event NOTE_SYMBOL ticks_gap A e) raw_note_events empty_assigner"

text \<open>
  "regenerate note-on and off events": a note survives if it ends after its start, and is
  then followed by a fresh \<open>note_off\<close> (mido's default velocity 64) at its end tick.
\<close>

definition regenerate_note :: "ChartEvent \<Rightarrow> ChartEvent list" where
  "regenerate_note e =
     (if tick_end_abs e > tick_abs e
      then [e, mk_event (NoteOff (channel (msg e)) (pitch (msg e)) 64) (tick_end_abs e)]
      else [])"

definition regenerate_lane :: "ChartEvent list \<Rightarrow> nat list \<Rightarrow> ChartEvent list" where
  "regenerate_lane h lane = concat (map (\<lambda>a. regenerate_note (h ! a)) lane)"

text \<open>
  The lanes handed to the scans, in the order of \<open>note_events.items()\<close>, with the one
  empty chart of lane \<open>(0, 0)\<close> when there is no note at all.
\<close>

definition lanes_of :: "char \<Rightarrow> assigner \<Rightarrow> ((int \<times> nat) \<times> ChartEvent list) list" where
  "lanes_of NOTE_SYMBOL A =
     (let lanes = (if is_long_note NOTE_SYMBOL
                   then map (\<lambda>(k, lane). (k, regenerate_lane (heap A) lane)) (note_events A)
                   else map (\<lambda>(k, lane). (k, map (\<lambda>a. heap A ! a) lane)) (note_events A))
      in if lanes = [] then [((0, 0), [])] else lanes)"

section \<open>Merging, the baseline state and the two passes of \<open>main\<close>\<close>

text \<open>The key of the merge: \<open>(tick_abs, 1 if note else 0)\<close>, compared as Python tuples.\<close>

definition merge_key :: "ChartEvent \<Rightarrow> int \<times> int" where
  "merge_key ev =
     (tick_abs ev, case msg ev of NoteOn c p v \<Rightarrow> 1 | NoteOff c p v \<Rightarrow> 1 | _ \<Rightarrow> 0)"

definition key_less :: "int \<times> int \<Rightarrow> int \<times> int \<Rightarrow> bool" where
  "key_less k1 k2 = (fst k1 < fst k2 \<or> (fst k1 = fst k2 \<and> snd k1 < snd k2))"

fun merge_sorted :: "ChartEvent list \<Rightarrow> ChartEvent list \<Rightarrow> ChartEvent list" where
  "merge_sorted [] arr2 = arr2"
| "merge_sorted arr1 [] = arr1"
| "merge_sorted (x # arr1) (y # arr2) =
     (if key_less (merge_key x) (merge_key y) then x # merge_sorted arr1 (y # arr2)
      else y # merge_sorted (x # arr1) arr2)"







section \<open>Observations on the output and the state\<close>

text \<open>The number of cells (symbols) in a piece of output.\<close>

fun cell_count :: "emitted list \<Rightarrow> nat" where
  "cell_count [] = 0"
| "cell_count (Cells cs # out) = length cs + cell_count out"
| "cell_count (x # out) = cell_count out"

text \<open>The number of times a symbol occurs in the cells of a piece of output.\<close>

fun symbol_count :: "char \<Rightarrow> emitted list \<Rightarrow> nat" where
  "symbol_count c [] = 0"
| "symbol_count c (Cells cs # out) = count_list cs c + symbol_count c out"
| "symbol_count c (x # out) = symbol_count c out"

text \<open>
  The state of the balloon list while the event at position \<open>pos\<close> of the timeline is
  the next to be handled: the list, once created, is not empty, holds addresses below
  \<open>pos\<close> without repetition, and every record but the last is terminated.
\<close>

definition balloons_inv :: "nat \<Rightarrow> ChartState \<Rightarrow> ChartEvent list \<Rightarrow> bool" where
  "balloons_inv pos s events =
     (case balloons s of
        None \<Rightarrow> True
      | Some bs \<Rightarrow> bs \<noteq> [] \<and> distinct bs \<and> (\<forall>j \<in> set bs. j < pos) \<and>
                   (\<forall>j \<in> set (butlast bs). 0 \<le> usec_end_abs (events ! j)))"


text \<open>A run with its output dropped: what the silent pass keeps of a run.\<close>

definition silence :: "measure_loop \<Rightarrow> measure_loop" where
  "silence L = L\<lparr>ml_tja := None\<rparr>"

definition silent3 :: "ChartState \<times> ChartEvent list \<times> sink \<Rightarrow> ChartState \<times> ChartEvent list \<times> sink" where
  "silent3 r = (case r of (s, events, tja) \<Rightarrow> (s, events, None))"

definition silent4 ::
  "ChartState \<times> ChartEvent list \<times> sink \<times> nat \<Rightarrow> ChartState \<times> ChartEvent list \<times> sink \<times> nat" where
  "silent4 r = (case r of (s, events, tja, i_begin) \<Rightarrow> (s, events, None, i_begin))"



section \<open>Basic facts about errors and the timing model\<close>

lemma bind_err_Inr [simp]: "bind_err (Inr x) f = f x"
  by (simp add: bind_err_def)

lemma bind_err_Inl [simp]: "bind_err (Inl e) f = Inl e"
  by (simp add: bind_err_def)

lemma bind_err_eq_Inr:
  "bind_err m f = Inr y \<longleftrightarrow> (\<exists>x. m = Inr x \<and> f x = Inr y)"
  by (cases m) simp_all

lemma floordiv_Inr [simp]: "b \<noteq> 0 \<Longrightarrow> floordiv a b = Inr (a div b)"
  by (simp add: floordiv_def)

lemma floordiv_eq_Inr: "floordiv a b = Inr q \<longleftrightarrow> b \<noteq> 0 \<and> q = a div b"
  by (auto simp: floordiv_def)






section \<open>Frame properties of the scan\<close>

lemma map_update_same:
  "f y = f (xs ! i) \<Longrightarrow> map f (xs[i := y]) = map f xs"
  by (cases "i < length xs") (simp_all add: map_update list_update_same_conv list_update_beyond)

lemma emit_None [simp]: "emit None x = None"
  by (simp add: emit_def)

lemma emit_Some [simp]: "emit (Some out) x = Some (out @ [x])"
  by (simp add: emit_def)

lemma ensure_line_start_frame [simp]:
  "ml_state (ensure_line_start L) = ml_state L"
  "ml_events (ensure_line_start L) = ml_events L"
  "idiv_last (ensure_line_start L) = idiv_last L"
  "note_symbol_last (ensure_line_start L) = note_symbol_last L"
  "is_line_start (ensure_line_start L)"
  by (simp_all add: ensure_line_start_def)

lemma apply_set_tempo_eq_Inr:
  "apply_set_tempo s tick u = Inr s' \<longleftrightarrow>
     ticks_per_beat s \<noteq> 0 \<and>
     s' = s\<lparr>usec_checkpoint :=
               usec_checkpoint s + (tick - tick_checkpoint s) * usec_per_beat s div ticks_per_beat s,
            tick_checkpoint := tick, usec_per_beat := u\<rparr>"
  by (auto simp: apply_set_tempo_def advance_usec_def get_usec_at_def bind_err_eq_Inr floordiv_eq_Inr)


lemma advance_cells_frame [simp]:
  "ml_state (advance_cells L idiv) = ml_state L"
  "ml_events (advance_cells L idiv) = ml_events L"
  by (simp_all add: advance_cells_def)

lemma handle_event_frame:
  assumes "handle_event NS L i e = Inr L'" and "e = ml_events L ! i"
  shows "tick_measure_begin (ml_state L') = tick_measure_begin (ml_state L)
       \<and> ticks_per_beat (ml_state L') = ticks_per_beat (ml_state L)
       \<and> length (ml_events L') = length (ml_events L)
       \<and> map msg (ml_events L') = map msg (ml_events L)
       \<and> map tick_abs (ml_events L') = map tick_abs (ml_events L)"
proof (cases "msg e")
  case (TimeSignature n d)
  with assms show ?thesis by (auto simp: handle_event_def Let_def)
next
  case (SetTempo t)
  with assms show ?thesis
    by (auto simp: handle_event_def Let_def bind_err_eq_Inr apply_set_tempo_eq_Inr)
next
  case (NoteOn c p v)
  with assms show ?thesis
    by (auto simp: handle_event_def Let_def bind_err_eq_Inr map_update_same split: if_splits)
next
  case (NoteOff c p v)
  with assms show ?thesis
    by (auto simp: handle_event_def Let_def bind_err_eq_Inr map_update_same split: if_splits)
qed

lemma scan_event_frame:
  assumes "scan_event NS b g L i = Inr L'"
  shows "tick_measure_begin (ml_state L') = tick_measure_begin (ml_state L)
       \<and> ticks_per_beat (ml_state L') = ticks_per_beat (ml_state L)
       \<and> length (ml_events L') = length (ml_events L)
       \<and> map msg (ml_events L') = map msg (ml_events L)
       \<and> map tick_abs (ml_events L') = map tick_abs (ml_events L)"
proof -
  from assms obtain idiv where
    "handle_event NS (advance_cells L idiv) i (ml_events L ! i) = Inr L'"
    by (auto simp: scan_event_def Let_def bind_err_eq_Inr)
  from handle_event_frame [OF this] show ?thesis by simp
qed

lemma scan_events_frame:
  assumes "scan_events NS b g L is = Inr L'"
  shows "tick_measure_begin (ml_state L') = tick_measure_begin (ml_state L)
       \<and> ticks_per_beat (ml_state L') = ticks_per_beat (ml_state L)
       \<and> length (ml_events L') = length (ml_events L)
       \<and> map msg (ml_events L') = map msg (ml_events L)
       \<and> map tick_abs (ml_events L') = map tick_abs (ml_events L)"
  using assms
proof (induction "is" arbitrary: L)
  case Nil
  then show ?case by simp
next
  case (Cons i "is")
  from Cons.prems obtain L1 where
    1: "scan_event NS b g L i = Inr L1" and 2: "scan_events NS b g L1 is = Inr L'"
    by (auto simp: bind_err_eq_Inr)
  from Cons.IH [OF 2] scan_event_frame [OF 1] show ?case by simp
qed

lemma scan_measure_frame:
  assumes "scan_measure NS s events lo hi tja = Inr (s', events', tja')"
  shows "tick_measure_begin s' = tick_measure_begin s
       \<and> ticks_per_beat s' = ticks_per_beat s
       \<and> length events' = length events
       \<and> map msg events' = map msg events
       \<and> map tick_abs events' = map tick_abs events"
  using assms
  by (auto simp: scan_measure_def Let_def bind_err_eq_Inr split: if_splits
           dest!: scan_events_frame)

lemma get_ticks_per_measure_eq_Inr:
  "get_ticks_per_measure s = Inr n \<longleftrightarrow>
     tsign_lower s \<noteq> 0 \<and> n = max 1 (ticks_per_beat s * 4 * tsign_upper s div tsign_lower s)"
  by (auto simp: get_ticks_per_measure_def bind_err_eq_Inr floordiv_eq_Inr)

lemma get_tick_measure_end_eq_Inr:
  "get_tick_measure_end s = Inr t \<longleftrightarrow>
     tsign_lower s \<noteq> 0 \<and>
     t = tick_measure_begin s + max 1 (ticks_per_beat s * 4 * tsign_upper s div tsign_lower s)"
  by (auto simp: get_tick_measure_end_def bind_err_eq_Inr get_ticks_per_measure_eq_Inr)

lemma advance_measure_eq_Inr:
  "advance_measure s = Inr s' \<longleftrightarrow>
     tsign_lower s \<noteq> 0 \<and>
     s' = s\<lparr>tick_measure_begin :=
              tick_measure_begin s + max 1 (ticks_per_beat s * 4 * tsign_upper s div tsign_lower s)\<rparr>"
  by (auto simp: advance_measure_def bind_err_eq_Inr get_tick_measure_end_eq_Inr)

lemma step_over_measures_terminates:
  "\<exists>r. step_over_measures NS t i s events tja i_begin = Some r"
proof (induction "nat (t - tick_measure_begin s)" arbitrary: s events tja i_begin rule: less_induct)
  case less
  show ?case
  proof (cases "get_tick_measure_end s")
    case (Inl err)
    then show ?thesis by (subst step_over_measures.simps) simp
  next
    case (Inr tick_end)
    note tend = Inr
    show ?thesis
    proof (cases "tick_end \<le> t")
      case False
      with tend show ?thesis by (subst step_over_measures.simps) simp
    next
      case True
      show ?thesis
      proof (cases "scan_measure NS s events i_begin i tja")
        case (Inl err)
        with tend True show ?thesis by (subst step_over_measures.simps) simp
      next
        case (Inr res)
        obtain s1 events1 tja1 where res: "res = (s1, events1, tja1)" by (cases res)
        from Inr res have sm: "scan_measure NS s events i_begin i tja = Inr (s1, events1, tja1)"
          by simp
        show ?thesis
        proof (cases "advance_measure s1")
          case (Inl err)
          with tend True sm show ?thesis by (subst step_over_measures.simps) simp
        next
          case (Inr s2)
          have "tick_measure_begin s1 = tick_measure_begin s"
            using scan_measure_frame [OF sm] by simp
          moreover have "tick_measure_begin s < t"
            using tend True by (auto simp: get_tick_measure_end_eq_Inr)
          moreover have "tick_measure_begin s1 < tick_measure_begin s2"
            using Inr by (auto simp: advance_measure_eq_Inr)
          ultimately have "nat (t - tick_measure_begin s2) < nat (t - tick_measure_begin s)"
            by simp
          from less [OF this] obtain r where
            "step_over_measures NS t i s2 events1 tja1 i = Some r" by blast
          with tend True sm Inr show ?thesis by (subst step_over_measures.simps) simp
        qed
      qed
    qed
  qed
qed

lemma chart_event_terminates:
  "\<exists>r. chart_event NS s events tja i_begin i = Some r"
proof -
  obtain r where "step_over_measures NS (tick_abs (events ! i)) i s events tja i_begin = Some r"
    using step_over_measures_terminates by blast
  then show ?thesis
    by (cases r) (auto simp: chart_event_def Let_def)
qed

lemma chart_events_terminates:
  "\<exists>r. chart_events NS s events tja i_begin is = Some r"
proof (induction "is" arbitrary: s events tja i_begin)
  case Nil
  then show ?case by simp
next
  case (Cons i "is")
  obtain r where r: "chart_event NS s events tja i_begin i = Some r"
    using chart_event_terminates by blast
  show ?case
  proof (cases r)
    case (Inl err)
    with r show ?thesis by simp
  next
    case (Inr x)
    obtain s1 events1 tja1 imb1 where "x = (s1, events1, tja1, imb1)" by (cases x)
    with r Inr Cons.IH [of s1 events1 tja1 imb1] show ?thesis by simp
  qed
qed

section \<open>The quantization unit\<close>

lemma remdups_adj_snoc:
  "zs \<noteq> [] \<Longrightarrow>
   remdups_adj (zs @ [y]) = (if last zs = y then remdups_adj zs else remdups_adj zs @ [y])"
proof -
  assume "zs \<noteq> []"
  then have zs: "zs = butlast zs @ [last zs]" by simp
  have "remdups_adj (butlast zs @ [last zs, y]) =
        remdups_adj (butlast zs @ [last zs]) @ (if last zs = y then [] else [y])"
    by (rule remdups_adj_append_two)
  moreover have "butlast zs @ [last zs, y] = zs @ [y]" using zs
    by (metis append.assoc append_Cons append_Nil)
  ultimately show ?thesis using zs by (metis append_Nil2)
qed

lemma dedup_fold_inv:
  assumes "1 \<le> k" and "k \<le> length xs"
    and "fold (\<lambda>r acc. dedup_step acc r) [1..<k] (xs, 0) = (ys, l)"
  shows "length ys = length xs \<and> l < k \<and> take (Suc l) ys = remdups_adj (take k xs) \<and>
         drop k ys = drop k xs"
  using assms
proof (induction k arbitrary: ys l)
  case 0
  then show ?case by simp
next
  case (Suc k)
  show ?case
  proof (cases "k = 0")
    case True
    with Suc.prems have "ys = xs" "l = 0" by simp_all
    moreover from Suc.prems True have "xs \<noteq> []" by auto
    ultimately show ?thesis using True
      by (cases xs) simp_all
  next
    case False
    then have k1: "1 \<le> k" by simp
    from Suc.prems have klen: "k < length xs" by simp
    obtain ys0 l0 where f0: "fold (\<lambda>r acc. dedup_step acc r) [1..<k] (xs, 0) = (ys0, l0)"
      by (cases "fold (\<lambda>r acc. dedup_step acc r) [1..<k] (xs, 0)")
    from Suc.IH [OF k1 _ f0] klen have
      len: "length ys0 = length xs" and l0: "l0 < k" and
      tk: "take (Suc l0) ys0 = remdups_adj (take k xs)" and dr: "drop k ys0 = drop k xs"
      by simp_all
    have up: "[1..<Suc k] = [1..<k] @ [k]" using k1 by simp
    from Suc.prems(3) f0 k1 have step: "dedup_step (ys0, l0) k = (ys, l)"
      by simp
    have yk: "ys0 ! k = xs ! k"
      using dr klen len by (metis Cons_nth_drop_Suc nth_via_drop)
    have tne: "take k xs \<noteq> []" using k1 klen by auto
    have "l0 < length ys0" using l0 klen len by simp
    then have "ys0 ! l0 = last (take (Suc l0) ys0)"
      by (simp add: take_Suc_conv_app_nth)
    also have "\<dots> = last (take k xs)" using tne by (simp add: tk)
    finally have yl: "ys0 ! l0 = last (take k xs)" .
    have tS: "take (Suc k) xs = take k xs @ [xs ! k]"
      using klen by (simp add: take_Suc_conv_app_nth)
    show ?thesis
    proof (cases "xs ! k = last (take k xs)")
      case True
      with step yk yl have "ys = ys0" "l = l0" by (simp_all add: dedup_step_def)
      moreover have "remdups_adj (take (Suc k) xs) = remdups_adj (take k xs)"
        using True tne by (simp add: tS remdups_adj_snoc)
      moreover have "drop (Suc k) ys0 = drop (Suc k) xs"
        using dr by (metis drop_Suc tl_drop)
      ultimately show ?thesis using len l0 tk by simp
    next
      case False
      with step yk yl have ys: "ys = ys0[Suc l0 := xs ! k]" and l: "l = Suc l0"
        by (auto simp add: dedup_step_def)
      have r: "remdups_adj (take (Suc k) xs) = remdups_adj (take k xs) @ [xs ! k]"
        using False tne by (auto simp add: tS remdups_adj_snoc)
      have sl: "Suc l0 < length ys0" using l0 klen len by simp
      have "take (Suc (Suc l0)) ys = take (Suc l0) ys0 @ [xs ! k]"
        using sl by (simp add: ys take_Suc_conv_app_nth)
      moreover have "drop (Suc k) ys = drop (Suc k) xs"
      proof -
        have "drop (Suc k) ys = drop (Suc k) ys0" using l0 by (simp add: ys)
        also have "\<dots> = drop (Suc k) xs" using dr by (metis drop_Suc tl_drop)
        finally show ?thesis .
      qed
      ultimately show ?thesis using len l0 tk r l ys by simp
    qed
  qed
qed

lemma remove_duplications_eq: "remove_duplications xs = remdups_adj xs"
proof (cases "xs = []")
  case True
  then show ?thesis by (simp add: remove_duplications_def)
next
  case False
  obtain ys l where f: "fold (\<lambda>r acc. dedup_step acc r) [1..<length xs] (xs, 0) = (ys, l)"
    by (cases "fold (\<lambda>r acc. dedup_step acc r) [1..<length xs] (xs, 0)")
  have "1 \<le> length xs" using False by (cases xs) simp_all
  from dedup_fold_inv [OF this _ f] have "take (Suc l) ys = remdups_adj xs" by simp
  with f show ?thesis by (simp add: remove_duplications_def)
qed

lemma py_gcd_eq_Gcd: "py_gcd xs = Gcd (set xs)"
  by (simp add: py_gcd_def Gcd_set_eq_fold)

lemma tick_gcd_of_eq_Gcd:
  "tick_gcd_of events lo hi tick_beg tick_end =
     Gcd ({tick_abs (events ! i) - tick_beg | i. lo \<le> i \<and> i < hi \<and> tick_beg < tick_abs (events ! i)}
          \<union> {tick_end - tick_beg})"
proof -
  have "set (tick_rels_of events lo hi tick_beg tick_end) =
        {tick_abs (events ! i) - tick_beg | i. lo \<le> i \<and> i < hi \<and> tick_beg < tick_abs (events ! i)}
          \<union> {tick_end - tick_beg}"
    by (auto simp: tick_rels_of_def)
  then show ?thesis
    by (simp add: tick_gcd_of_def remove_duplications_eq py_gcd_eq_Gcd)
qed

lemma tick_gcd_of_dvd_length:
  "tick_gcd_of events lo hi tick_beg tick_end dvd tick_end - tick_beg"
  by (simp add: tick_gcd_of_eq_Gcd)

lemma tick_gcd_of_dvd_offset:
  "lo \<le> i \<Longrightarrow> i < hi \<Longrightarrow> tick_beg \<le> tick_abs (events ! i) \<Longrightarrow>
   tick_gcd_of events lo hi tick_beg tick_end dvd tick_abs (events ! i) - tick_beg"
proof (cases "tick_beg < tick_abs (events ! i)")
  case True
  assume "lo \<le> i" "i < hi"
  with True have "tick_abs (events ! i) - tick_beg \<in>
     {tick_abs (events ! i) - tick_beg | i. lo \<le> i \<and> i < hi \<and> tick_beg < tick_abs (events ! i)}
          \<union> {tick_end - tick_beg}" by blast
  then show ?thesis unfolding tick_gcd_of_eq_Gcd by (rule Gcd_dvd)
next
  case False
  assume "tick_beg \<le> tick_abs (events ! i)"
  with False have "tick_abs (events ! i) - tick_beg = 0" by simp
  then show ?thesis by simp
qed

lemma tick_gcd_of_pos:
  "tick_beg < tick_end \<Longrightarrow> 1 \<le> tick_gcd_of events lo hi tick_beg tick_end"
proof -
  assume lt: "tick_beg < tick_end"
  have "tick_gcd_of events lo hi tick_beg tick_end \<noteq> 0"
    using tick_gcd_of_dvd_length [of events lo hi tick_beg tick_end] lt by auto
  moreover have "0 \<le> tick_gcd_of events lo hi tick_beg tick_end"
    by (simp add: tick_gcd_of_eq_Gcd)
  ultimately show ?thesis by simp
qed

section \<open>Cells written by a scan\<close>

lemma int_div_less_quotient:
  assumes "0 < g" and "(a::int) < g * q"
  shows "a div g < q"
proof -
  have "g * (a div g) + a mod g = a" by simp
  moreover have "0 \<le> a mod g" using assms(1) by simp
  ultimately have "g * (a div g) \<le> a" by linarith
  with assms(2) have "g * (a div g) < g * q" by simp
  with assms(1) show ?thesis by (simp add: mult_less_cancel_left_pos)
qed

lemma cell_count_append: "cell_count (a @ b) = cell_count a + cell_count b"
  by (induction a rule: cell_count.induct) simp_all

lemma length_cell_run: "l < idiv \<Longrightarrow> int (length (cell_run c idiv l)) = idiv - l"
  by (simp add: cell_run_def)

text \<open>What a step may do to the sink: nothing in the silent pass, append otherwise.\<close>

lemma advance_cells_sink:
  "\<exists>extra. ml_tja (advance_cells L idiv) =
             (case ml_tja L of None \<Rightarrow> None | Some out \<Rightarrow> Some (out @ extra)) \<and>
           MeasureEnd \<notin> set extra \<and>
           int (cell_count extra) = max (idiv_last L) idiv - idiv_last L"
proof (cases "idiv_last L < idiv")
  case True
  then show ?thesis
    by (intro exI [of _ "[Cells (cell_run (note_symbol_last L) idiv (idiv_last L))]"])
       (auto simp: advance_cells_def length_cell_run emit_def split: option.splits)
next
  case False
  then show ?thesis
    by (intro exI [of _ "[]"]) (auto simp: advance_cells_def split: option.splits)
qed

lemma advance_cells_idiv_last: "idiv_last (advance_cells L idiv) = max (idiv_last L) idiv"
  by (simp add: advance_cells_def)

lemma ensure_line_start_sink:
  "\<exists>extra. ml_tja (ensure_line_start L) =
             (case ml_tja L of None \<Rightarrow> None | Some out \<Rightarrow> Some (out @ extra)) \<and>
           MeasureEnd \<notin> set extra \<and> cell_count extra = 0"
proof (cases "is_line_start L")
  case True
  then show ?thesis
    by (intro exI [of _ "[]"]) (auto simp: ensure_line_start_def split: option.splits)
next
  case False
  then show ?thesis
    by (intro exI [of _ "[Newline]"]) (auto simp: ensure_line_start_def emit_def split: option.splits)
qed

lemma handle_event_sink:
  assumes "handle_event NS L i e = Inr L'"
  shows "idiv_last L' = idiv_last L \<and>
         (\<exists>extra. ml_tja L' = (case ml_tja L of None \<Rightarrow> None | Some out \<Rightarrow> Some (out @ extra)) \<and>
                  MeasureEnd \<notin> set extra \<and> cell_count extra = 0)"
proof (cases "msg e")
  case (TimeSignature n d)
  let ?L0 = "L\<lparr>ml_state := (ml_state L)\<lparr>tsign_upper := n, tsign_lower := d\<rparr>\<rparr>"
  from ensure_line_start_sink [of ?L0] obtain extra where
    ex: "ml_tja (ensure_line_start ?L0) =
           (case ml_tja L of None \<Rightarrow> None | Some out \<Rightarrow> Some (out @ extra))"
        "MeasureEnd \<notin> set extra" "cell_count extra = 0" by auto
  from assms TimeSignature have L': "L' = (ensure_line_start ?L0)
      \<lparr>ml_tja := emit (ml_tja (ensure_line_start ?L0)) (MeasureLine n d)\<rparr>"
    by (simp add: handle_event_def Let_def)
  show ?thesis
    using ex unfolding L'
    by (intro conjI exI [of _ "extra @ [MeasureLine n d]"])
       (auto simp: emit_def cell_count_append split: option.splits)
next
  case (SetTempo t)
  from assms SetTempo obtain s' bpm where
    s': "apply_set_tempo (ml_state L) (tick_abs e) t = Inr s'" and
    L': "L' = (ensure_line_start (L\<lparr>ml_state := s'\<rparr>))
      \<lparr>ml_tja := emit (ml_tja (ensure_line_start (L\<lparr>ml_state := s'\<rparr>))) (BpmChangeLine bpm)\<rparr>"
    by (auto simp: handle_event_def Let_def bind_err_eq_Inr)
  from ensure_line_start_sink [of "L\<lparr>ml_state := s'\<rparr>"] obtain extra where
    ex: "ml_tja (ensure_line_start (L\<lparr>ml_state := s'\<rparr>)) =
           (case ml_tja L of None \<Rightarrow> None | Some out \<Rightarrow> Some (out @ extra))"
        "MeasureEnd \<notin> set extra" "cell_count extra = 0" by auto
  show ?thesis
    using ex unfolding L'
    by (intro conjI exI [of _ "extra @ [BpmChangeLine bpm]"])
       (auto simp: emit_def cell_count_append split: option.splits)
next
  case (NoteOn c p v)
  with assms have "idiv_last L' = idiv_last L \<and> ml_tja L' = ml_tja L"
    by (auto simp: handle_event_def Let_def bind_err_eq_Inr split: if_splits)
  then show ?thesis
    by (intro conjI exI [of _ "[]"]) (auto split: option.splits)
next
  case (NoteOff c p v)
  with assms have "idiv_last L' = idiv_last L \<and> ml_tja L' = ml_tja L"
    by (auto simp: handle_event_def Let_def bind_err_eq_Inr split: if_splits)
  then show ?thesis
    by (intro conjI exI [of _ "[]"]) (auto split: option.splits)
qed

lemma scan_event_sink:
  assumes "scan_event NS b g L i = Inr L'"
  shows "g \<noteq> 0 \<and>
         idiv_last L' = max (idiv_last L) ((tick_abs (ml_events L ! i) - b) div g) \<and>
         (\<exists>extra. ml_tja L' = (case ml_tja L of None \<Rightarrow> None | Some out \<Rightarrow> Some (out @ extra)) \<and>
                  MeasureEnd \<notin> set extra \<and>
                  int (cell_count extra) = idiv_last L' - idiv_last L)"
proof -
  let ?idiv = "(tick_abs (ml_events L ! i) - b) div g"
  from assms have g: "g \<noteq> 0" and
    h: "handle_event NS (advance_cells L ?idiv) i (ml_events L ! i) = Inr L'"
    by (auto simp: scan_event_def Let_def bind_err_eq_Inr floordiv_eq_Inr)
  from advance_cells_sink [of L ?idiv] obtain x1 where
    x1: "ml_tja (advance_cells L ?idiv) =
           (case ml_tja L of None \<Rightarrow> None | Some out \<Rightarrow> Some (out @ x1))"
        "MeasureEnd \<notin> set x1" "int (cell_count x1) = max (idiv_last L) ?idiv - idiv_last L"
    by blast
  from handle_event_sink [OF h] obtain x2 where
    x2: "idiv_last L' = idiv_last (advance_cells L ?idiv)"
        "ml_tja L' = (case ml_tja (advance_cells L ?idiv) of None \<Rightarrow> None
                      | Some out \<Rightarrow> Some (out @ x2))"
        "MeasureEnd \<notin> set x2" "cell_count x2 = 0"
    by blast
  have "ml_tja L' = (case ml_tja L of None \<Rightarrow> None | Some out \<Rightarrow> Some (out @ (x1 @ x2)))"
    using x1(1) x2(2) by (simp split: option.splits)
  moreover have "MeasureEnd \<notin> set (x1 @ x2)" using x1(2) x2(3) by simp
  moreover have "int (cell_count (x1 @ x2)) = idiv_last L' - idiv_last L"
    using x1(3) x2(1,4) by (simp add: cell_count_append advance_cells_idiv_last)
  ultimately show ?thesis using g x2(1) by (auto simp: advance_cells_idiv_last)
qed

lemma scan_events_snoc:
  "scan_events NS b g L (is @ [i]) =
     bind_err (scan_events NS b g L is) (\<lambda>L'. scan_event NS b g L' i)"
proof (induction "is" arbitrary: L)
  case Nil
  then show ?case by (cases "scan_event NS b g L i") simp_all
next
  case (Cons j "is")
  then show ?case by (cases "scan_event NS b g L j") simp_all
qed

lemma scan_events_sink:
  assumes "scan_events NS b g L is = Inr L'"
  shows "idiv_last L \<le> idiv_last L' \<and>
         (\<exists>extra. ml_tja L' = (case ml_tja L of None \<Rightarrow> None | Some out \<Rightarrow> Some (out @ extra)) \<and>
                  MeasureEnd \<notin> set extra \<and>
                  int (cell_count extra) = idiv_last L' - idiv_last L)"
  using assms
proof (induction "is" arbitrary: L)
  case Nil
  then show ?case by (auto intro!: exI [of _ "[]"] split: option.splits)
next
  case (Cons i "is")
  from Cons.prems obtain L1 where
    1: "scan_event NS b g L i = Inr L1" and 2: "scan_events NS b g L1 is = Inr L'"
    by (auto simp: bind_err_eq_Inr)
  from scan_event_sink [OF 1] obtain x1 where
    x1: "idiv_last L1 = max (idiv_last L) ((tick_abs (ml_events L ! i) - b) div g)"
        "ml_tja L1 = (case ml_tja L of None \<Rightarrow> None | Some out \<Rightarrow> Some (out @ x1))"
        "MeasureEnd \<notin> set x1" "int (cell_count x1) = idiv_last L1 - idiv_last L"
    by blast
  from Cons.IH [OF 2] obtain x2 where
    x2: "idiv_last L1 \<le> idiv_last L'"
        "ml_tja L' = (case ml_tja L1 of None \<Rightarrow> None | Some out \<Rightarrow> Some (out @ x2))"
        "MeasureEnd \<notin> set x2" "int (cell_count x2) = idiv_last L' - idiv_last L1"
    by blast
  have "ml_tja L' = (case ml_tja L of None \<Rightarrow> None | Some out \<Rightarrow> Some (out @ (x1 @ x2)))"
    using x1(2) x2(2) by (simp split: option.splits)
  moreover have "MeasureEnd \<notin> set (x1 @ x2)" using x1(3) x2(3) by simp
  moreover have "int (cell_count (x1 @ x2)) = idiv_last L' - idiv_last L"
    using x1(4) x2(4) by (simp add: cell_count_append)
  moreover have "idiv_last L \<le> idiv_last L'" using x1(1) x2(1) by simp
  ultimately show ?case by blast
qed

lemma scan_events_idiv_bound:
  assumes "scan_events NS b g L is = Inr L'"
    and "\<forall>i \<in> set is. i < length (ml_events L) \<and> (tick_abs (ml_events L ! i) - b) div g < q"
    and "idiv_last L < q"
  shows "idiv_last L' < q"
  using assms
proof (induction "is" arbitrary: L)
  case Nil
  then show ?case by simp
next
  case (Cons i "is")
  from Cons.prems(1) obtain L1 where
    1: "scan_event NS b g L i = Inr L1" and 2: "scan_events NS b g L1 is = Inr L'"
    by (auto simp: bind_err_eq_Inr)
  from scan_event_sink [OF 1] have
    "idiv_last L1 = max (idiv_last L) ((tick_abs (ml_events L ! i) - b) div g)" by blast
  with Cons.prems(2,3) have b1: "idiv_last L1 < q" by simp
  from scan_event_frame [OF 1] have len: "length (ml_events L1) = length (ml_events L)"
    and ticks: "map tick_abs (ml_events L1) = map tick_abs (ml_events L)" by simp_all
  have "\<forall>j \<in> set is. j < length (ml_events L1) \<and> (tick_abs (ml_events L1 ! j) - b) div g < q"
  proof
    fix j assume j: "j \<in> set is"
    with Cons.prems(2) have jl: "j < length (ml_events L)"
      and jq: "(tick_abs (ml_events L ! j) - b) div g < q" by simp_all
    have "tick_abs (ml_events L1 ! j) = map tick_abs (ml_events L1) ! j"
      using jl len by simp
    also have "\<dots> = tick_abs (ml_events L ! j)" using jl by (simp add: ticks)
    finally show "j < length (ml_events L1) \<and> (tick_abs (ml_events L1 ! j) - b) div g < q"
      using jl len jq by simp
  qed
  from Cons.IH [OF 2 this b1] show ?case .
qed

lemma scan_measure_eq_Inr:
  "scan_measure NS s events lo hi tja = Inr r \<longleftrightarrow>
     (\<exists>tick_end L.
        get_tick_measure_end s = Inr tick_end \<and>
        \<not> (lo < hi \<and> length events < hi) \<and>
        scan_events NS (tick_measure_begin s)
          (tick_gcd_of events lo hi (tick_measure_begin s) tick_end)
          \<lparr>ml_state = s, ml_events = events, ml_tja = tja, is_line_start = True,
            idiv_last = 0, note_symbol_last = CHR ''0''\<rparr> [lo..<hi] = Inr L \<and>
        tick_gcd_of events lo hi (tick_measure_begin s) tick_end \<noteq> 0 \<and>
        r = (ml_state L, ml_events L,
             emit (if lo < hi \<and> idiv_last L <
                        (tick_end - tick_measure_begin s) div
                          tick_gcd_of events lo hi (tick_measure_begin s) tick_end
                   then emit (ml_tja L)
                          (Cells (cell_run (note_symbol_last L)
                             ((tick_end - tick_measure_begin s) div
                                tick_gcd_of events lo hi (tick_measure_begin s) tick_end)
                             (idiv_last L)))
                   else ml_tja L) MeasureEnd))"
  (is "?lhs = ?rhs")
proof (cases "get_tick_measure_end s")
  case (Inl err)
  then show ?thesis by (simp add: scan_measure_def)
next
  case (Inr tick_end)
  note te = Inr
  let ?g = "tick_gcd_of events lo hi (tick_measure_begin s) tick_end"
  let ?L0 = "\<lparr>ml_state = s, ml_events = events, ml_tja = tja, is_line_start = True,
            idiv_last = 0, note_symbol_last = CHR ''0''\<rparr>"
  show ?thesis
  proof (cases "lo < hi \<and> length events < hi")
    case True
    with te show ?thesis by (simp add: scan_measure_def)
  next
    case False
    note guard = False
    show ?thesis
    proof (cases "scan_events NS (tick_measure_begin s) ?g ?L0 [lo..<hi]")
      case (Inl err)
      with te guard show ?thesis by (simp add: scan_measure_def Let_def)
    next
      case (Inr L)
      note se = Inr
      show ?thesis
      proof (cases "?g = 0")
        case True
        with te guard se show ?thesis by (simp add: scan_measure_def Let_def floordiv_def)
      next
        case False
        with te guard se show ?thesis
          by (auto simp add: scan_measure_def Let_def floordiv_def)
      qed
    qed
  qed
qed

section \<open>Flushing one measure\<close>

lemma measure_cells:
  assumes sm: "scan_measure NS s events lo hi (Some out) = Inr (s', events', tja')"
    and ne: "lo < hi"
    and te: "get_tick_measure_end s = Inr tick_end"
    and inside: "\<forall>i. lo \<le> i \<and> i < hi \<longrightarrow> tick_abs (events ! i) < tick_end"
  shows "\<exists>items. tja' = Some (out @ items @ [MeasureEnd]) \<and> MeasureEnd \<notin> set items \<and>
           int (cell_count items) * tick_gcd_of events lo hi (tick_measure_begin s) tick_end
             = tick_end - tick_measure_begin s"
proof -
  let ?b = "tick_measure_begin s"
  let ?g = "tick_gcd_of events lo hi ?b tick_end"
  let ?q = "(tick_end - ?b) div ?g"
  let ?L0 = "\<lparr>ml_state = s, ml_events = events, ml_tja = Some out, is_line_start = True,
            idiv_last = 0, note_symbol_last = CHR ''0''\<rparr>"
  from sm te obtain L where
    guard: "\<not> (lo < hi \<and> length events < hi)" and
    se: "scan_events NS ?b ?g ?L0 [lo..<hi] = Inr L" and
    res: "(s', events', tja') = (ml_state L, ml_events L,
             emit (if lo < hi \<and> idiv_last L < ?q
                   then emit (ml_tja L) (Cells (cell_run (note_symbol_last L) ?q (idiv_last L)))
                   else ml_tja L) MeasureEnd)"
    unfolding scan_measure_eq_Inr by auto
  have lt: "?b < tick_end" using te by (auto simp: get_tick_measure_end_eq_Inr)
  have gpos: "0 < ?g" using tick_gcd_of_pos [OF lt, of events lo hi] by simp
  have gdvd: "?g dvd tick_end - ?b" by (rule tick_gcd_of_dvd_length)
  then have qg: "?g * ?q = tick_end - ?b" by simp
  have qpos: "0 < ?q"
    using lt gpos qg by (metis diff_gt_0_iff_gt zero_less_mult_pos)
  have hilen: "hi \<le> length events" using guard ne by simp
  have bound: "\<forall>i \<in> set [lo..<hi]. i < length (ml_events ?L0) \<and>
                 (tick_abs (ml_events ?L0 ! i) - ?b) div ?g < ?q"
  proof
    fix i assume "i \<in> set [lo..<hi]"
    then have i: "lo \<le> i" "i < hi" by simp_all
    with inside have "tick_abs (events ! i) - ?b < ?g * ?q" unfolding qg by simp
    from int_div_less_quotient [OF gpos this] i hilen
    show "i < length (ml_events ?L0) \<and> (tick_abs (ml_events ?L0 ! i) - ?b) div ?g < ?q"
      by simp
  qed
  have "idiv_last ?L0 < ?q" using qpos by simp
  from scan_events_idiv_bound [OF se bound this] have last_lt: "idiv_last L < ?q" .
  from scan_events_sink [OF se] obtain extra where
    ex: "0 \<le> idiv_last L" "ml_tja L = Some (out @ extra)" "MeasureEnd \<notin> set extra"
        "int (cell_count extra) = idiv_last L"
    by auto
  let ?items = "extra @ [Cells (cell_run (note_symbol_last L) ?q (idiv_last L))]"
  from res ne last_lt ex(2) have "tja' = Some (out @ ?items @ [MeasureEnd])"
    by simp
  moreover have "MeasureEnd \<notin> set ?items" using ex(3) by simp
  moreover have "int (cell_count ?items) = ?q"
    using ex(4) length_cell_run [OF last_lt] by (simp add: cell_count_append)
  ultimately show ?thesis using qg by (metis mult.commute)
qed

lemma scan_measure_empty_range_aux:
  assumes "hi \<le> lo" and "tsign_lower s \<noteq> 0"
  shows "scan_measure NS s events lo hi tja = Inr (s, events, emit tja MeasureEnd)"
proof -
  let ?te = "tick_measure_begin s + max 1 (ticks_per_beat s * 4 * tsign_upper s div tsign_lower s)"
  have te: "get_tick_measure_end s = Inr ?te"
    using assms(2) by (simp add: get_tick_measure_end_eq_Inr)
  have "tick_measure_begin s < ?te" by simp
  from tick_gcd_of_pos [OF this, of events lo hi]
  have g: "tick_gcd_of events lo hi (tick_measure_begin s) ?te \<noteq> 0" by simp
  have e: "[lo..<hi] = []" using assms(1) by simp
  show ?thesis
    unfolding scan_measure_eq_Inr using te g assms(1) by (simp add: e)
qed

text \<open>
  Claim C5, as the code has it. For an empty event range \<open>scan_measure\<close> prints the
  measure terminator alone, with no cells before it, and changes neither the state nor
  the events: the final run of cells is guarded by \<open>ievents.stop > ievents.start\<close>.
  The signature's denominator must be non-zero, or the measure length raises.
\<close>

theorem scan_measure_empty_range:
  assumes "hi \<le> lo" and "tsign_lower s \<noteq> 0"
  shows "scan_measure NS s events lo hi tja = Inr (s, events, emit tja MeasureEnd)"
  using assms by (rule scan_measure_empty_range_aux)

theorem scan_measure_empty_range_witness:
  "(0::nat) \<le> 0 \<and> tsign_lower (init_state 480) \<noteq> 0 \<and>
   scan_measure (CHR ''7'') (init_state 480) [] 0 0 (Some []) =
     Inr (init_state 480, [], Some [MeasureEnd])"
proof -
  have a: "(0::nat) \<le> 0" by simp
  have b: "tsign_lower (init_state 480) \<noteq> 0" by (simp add: init_state_def)
  from scan_measure_empty_range [OF a b, of "CHR ''7''" "[]" "Some []"] a b
  show ?thesis by simp
qed

text \<open>
  Claim C5 as stated fails: in 4/4 at 480 ticks per beat an empty range has the
  measure length 1920 as its only offset, so the unit is 1920 and the cell count is 1;
  the claim wants one cell \<open>'0'\<close> before the terminator, the code prints none.
\<close>

theorem empty_range_no_cells_counterexample:
  "scan_measure (CHR ''7'') (init_state 480) [] 0 0 (Some []) =
     Inr (init_state 480, [], Some [MeasureEnd]) \<and>
   cell_count [MeasureEnd] = 0 \<and>
   get_tick_measure_end (init_state 480) = Inr 1920 \<and>
   1920 div tick_gcd_of [] 0 0 0 1920 = 1"
proof -
  have "tsign_lower (init_state 480) \<noteq> 0" by (simp add: init_state_def)
  then have "scan_measure (CHR ''7'') (init_state 480) [] 0 0 (Some []) =
     Inr (init_state 480, [], emit (Some []) MeasureEnd)"
    by (intro scan_measure_empty_range_aux) simp_all
  moreover have "get_tick_measure_end (init_state 480) = Inr 1920"
    by (simp add: get_tick_measure_end_eq_Inr init_state_def)
  moreover have "tick_gcd_of [] 0 0 0 1920 = 1920"
    by (simp add: tick_gcd_of_eq_Gcd)
  ultimately show ?thesis by simp
qed

section \<open>Termination of the chart scan\<close>

lemma scan_chart_terminates_aux: "\<exists>r. scan_chart NS s events tja = Some r"
proof -
  obtain r where r: "chart_events NS s events tja 0 [0..<length events] = Some r"
    using chart_events_terminates by blast
  show ?thesis
  proof (cases r)
    case (Inl err)
    with r show ?thesis by (simp add: scan_chart_def)
  next
    case (Inr x)
    obtain s1 events1 tja1 imb1 where "x = (s1, events1, tja1, imb1)" by (cases x)
    with r Inr show ?thesis by (simp add: scan_chart_def)
  qed
qed

text \<open>
  Claim C10. \<open>scan_chart\<close> always ends, with a result or with an exception, on every
  state and every (finite) event list, and so does its inner loop for every event. The
  reason is the one the claim gives: with a denominator of at least 1 the measure
  length is defined and at least 1, so \<open>advance_measure\<close> moves the cursor strictly
  forward.
\<close>

theorem scan_chart_terminates:
  "(\<exists>r. scan_chart NS s events tja = Some r) \<and>
   (\<exists>r. step_over_measures NS t i s events tja i_begin = Some r) \<and>
   (1 \<le> tsign_lower s \<longrightarrow>
      (\<exists>n s'. get_ticks_per_measure s = Inr n \<and> 1 \<le> n \<and>
              advance_measure s = Inr s' \<and>
              tick_measure_begin s' = tick_measure_begin s + n \<and>
              tick_measure_begin s < tick_measure_begin s'))"
proof (intro conjI impI)
  show "\<exists>r. scan_chart NS s events tja = Some r" by (rule scan_chart_terminates_aux)
  show "\<exists>r. step_over_measures NS t i s events tja i_begin = Some r"
    by (rule step_over_measures_terminates)
  assume "1 \<le> tsign_lower s"
  then have nz: "tsign_lower s \<noteq> 0" by simp
  let ?n = "max 1 (ticks_per_beat s * 4 * tsign_upper s div tsign_lower s)"
  have "get_ticks_per_measure s = Inr ?n" using nz by (simp add: get_ticks_per_measure_eq_Inr)
  moreover have "advance_measure s = Inr (s\<lparr>tick_measure_begin := tick_measure_begin s + ?n\<rparr>)"
    using nz by (simp add: advance_measure_eq_Inr)
  ultimately show "\<exists>n s'. get_ticks_per_measure s = Inr n \<and> 1 \<le> n \<and>
              advance_measure s = Inr s' \<and>
              tick_measure_begin s' = tick_measure_begin s + n \<and>
              tick_measure_begin s < tick_measure_begin s'"
    by (intro exI [of _ ?n] exI [of _ "s\<lparr>tick_measure_begin := tick_measure_begin s + ?n\<rparr>"]) simp
qed

theorem scan_chart_terminates_witness:
  "1 \<le> tsign_lower (init_state 480) \<and>
   (\<exists>r. scan_chart (CHR ''7'') (init_state 480) [mk_event (NoteOn 0 69 100) 5000] None = Some r) \<and>
   (\<exists>r. step_over_measures (CHR ''7'') 5000 0 (init_state 480)
           [mk_event (NoteOn 0 69 100) 5000] None 0 = Some r) \<and>
   (\<exists>n s'. get_ticks_per_measure (init_state 480) = Inr n \<and> 1 \<le> n \<and>
              advance_measure (init_state 480) = Inr s' \<and>
              tick_measure_begin s' = tick_measure_begin (init_state 480) + n \<and>
              tick_measure_begin (init_state 480) < tick_measure_begin s')"
proof -
  have a: "1 \<le> tsign_lower (init_state 480)" by (simp add: init_state_def)
  from scan_chart_terminates [of "CHR ''7''" "init_state 480" "[mk_event (NoteOn 0 69 100) 5000]"
      None 5000 0 0] a
  show ?thesis by blast
qed

section \<open>The balloon list during a scan\<close>

lemma balloons_inv_mono:
  "balloons_inv pos s events \<Longrightarrow> pos \<le> pos' \<Longrightarrow> balloons_inv pos' s events"
  by (fastforce simp: balloons_inv_def split: option.splits)

lemma balloons_inv_cong:
  "balloons_inv pos s events \<Longrightarrow> balloons s' = balloons s \<Longrightarrow>
   (\<And>j. j < pos \<Longrightarrow> usec_end_abs (events' ! j) = usec_end_abs (events ! j)) \<Longrightarrow>
   balloons_inv pos s' events'"
proof (cases "balloons s")
  case None
  assume "balloons s' = balloons s"
  with None show ?thesis by (simp add: balloons_inv_def)
next
  case (Some bs)
  assume inv: "balloons_inv pos s events" and eq: "balloons s' = balloons s"
    and same: "\<And>j. j < pos \<Longrightarrow> usec_end_abs (events' ! j) = usec_end_abs (events ! j)"
  from inv Some have bs: "bs \<noteq> []" "distinct bs" "\<forall>j \<in> set bs. j < pos"
    "\<forall>j \<in> set (butlast bs). 0 \<le> usec_end_abs (events ! j)"
    by (simp_all add: balloons_inv_def)
  have "\<forall>j \<in> set (butlast bs). 0 \<le> usec_end_abs (events' ! j)"
  proof
    fix j assume j: "j \<in> set (butlast bs)"
    then have "j \<in> set bs" by (rule in_set_butlastD)
    with bs(3) have "j < pos" by simp
    with same bs(4) j show "0 \<le> usec_end_abs (events' ! j)" by simp
  qed
  with bs Some eq show ?thesis by (simp add: balloons_inv_def)
qed

lemma balloon_open_eq_Inr:
  "balloon_open s events = Inr b \<longleftrightarrow>
     (case balloons s of None \<Rightarrow> \<not> b
      | Some bs \<Rightarrow> bs \<noteq> [] \<and> b = (usec_end_abs (events ! last bs) < 0))"
  by (auto simp: balloon_open_def split: option.splits)

lemma handle_event_balloons_inv:
  assumes h: "handle_event NS L i e = Inr L'"
    and inv: "balloons_inv pos (ml_state L) (ml_events L)"
    and pos: "pos \<le> i"
  shows "balloons_inv (Suc i) (ml_state L') (ml_events L')"
proof -
  have inv': "balloons_inv (Suc i) (ml_state L) (ml_events L)"
    using inv pos by (auto intro: balloons_inv_mono)
  have upd_i: "\<And>x. balloons_inv (Suc i) (ml_state L) ((ml_events L)[i := x])"
  proof -
    fix x
    have "balloons_inv pos (ml_state L) ((ml_events L)[i := x])"
      using inv
    proof (rule balloons_inv_cong)
      fix j assume "j < pos"
      with pos have "i \<noteq> j" by simp
      then show "usec_end_abs ((ml_events L)[i := x] ! j) = usec_end_abs (ml_events L ! j)"
        by simp
    qed simp
    then show "balloons_inv (Suc i) (ml_state L) ((ml_events L)[i := x])"
      using pos by (auto intro: balloons_inv_mono)
  qed
  show ?thesis
  proof (cases "msg e")
    case (TimeSignature n d)
    with h inv' show ?thesis
      by (auto simp: handle_event_def Let_def elim!: balloons_inv_cong)
  next
    case (SetTempo t)
    with h inv' show ?thesis
      by (auto simp: handle_event_def Let_def bind_err_eq_Inr apply_set_tempo_eq_Inr
               elim!: balloons_inv_cong)
  next
    case (NoteOn c p v)
    show ?thesis
    proof (cases "is_long_note NS")
      case False
      with h NoteOn obtain u where
        L': "L' = L\<lparr>note_symbol_last := NS,
                    ml_events := (ml_events L)[i := e\<lparr>usec_abs := u, usec_end_abs := - 1\<rparr>]\<rparr>"
        by (auto simp: handle_event_def Let_def bind_err_eq_Inr)
      show ?thesis unfolding L' using upd_i by simp
    next
      case True
      with h NoteOn obtain opened where
        op: "balloon_open (ml_state L) (ml_events L) = Inr opened"
        by (auto simp: handle_event_def Let_def bind_err_eq_Inr)
      show ?thesis
      proof (cases opened)
        case True
        with h NoteOn \<open>is_long_note NS\<close> op have "L' = L"
          by (auto simp: handle_event_def Let_def bind_err_eq_Inr)
        with inv' show ?thesis by simp
      next
        case False
        let ?bs0 = "case balloons (ml_state L) of None \<Rightarrow> [] | Some bs \<Rightarrow> bs"
        from h NoteOn \<open>is_long_note NS\<close> op False obtain u where
          L': "L' = L\<lparr>note_symbol_last := NS,
                    ml_events := (ml_events L)[i := e\<lparr>usec_abs := u, usec_end_abs := - 1\<rparr>],
                    ml_state := (ml_state L)\<lparr>balloons := Some (?bs0 @ [i])\<rparr>\<rparr>"
          by (auto simp: handle_event_def Let_def bind_err_eq_Inr)
        have old: "\<forall>j \<in> set ?bs0. j < i \<and> 0 \<le> usec_end_abs (ml_events L ! j)"
        proof (cases "balloons (ml_state L)")
          case None
          then show ?thesis by simp
        next
          case (Some bs)
          with inv have bs: "bs \<noteq> []" "\<forall>j \<in> set bs. j < pos"
            "\<forall>j \<in> set (butlast bs). 0 \<le> usec_end_abs (ml_events L ! j)"
            by (simp_all add: balloons_inv_def)
          from op False Some have lastok: "0 \<le> usec_end_abs (ml_events L ! last bs)"
            by (simp add: balloon_open_eq_Inr)
          have "\<forall>j \<in> set bs. 0 \<le> usec_end_abs (ml_events L ! j)"
          proof
            fix j assume "j \<in> set bs"
            then have "j \<in> set (butlast bs @ [last bs])" using bs(1) by simp
            then have "j \<in> set (butlast bs) \<or> j = last bs" by auto
            with bs(3) lastok show "0 \<le> usec_end_abs (ml_events L ! j)" by auto
          qed
          with bs(2) pos Some show ?thesis by auto
        qed
        have dist: "distinct ?bs0"
          using inv by (auto simp: balloons_inv_def split: option.splits)
        show ?thesis
          unfolding L' using old dist
          by (auto simp: balloons_inv_def less_Suc_eq)
      qed
    qed
  next
    case (NoteOff c p v)
    show ?thesis
    proof (cases "is_long_note NS")
      case False
      with h NoteOff have "L' = L" by (auto simp: handle_event_def Let_def)
      with inv' show ?thesis by simp
    next
      case True
      with h NoteOff obtain opened where
        op: "balloon_open (ml_state L) (ml_events L) = Inr opened"
        by (auto simp: handle_event_def Let_def bind_err_eq_Inr)
      show ?thesis
      proof (cases opened)
        case False
        with h NoteOff \<open>is_long_note NS\<close> op have "L' = L"
          by (auto simp: handle_event_def Let_def bind_err_eq_Inr)
        with inv' show ?thesis by simp
      next
        case True
        let ?b = "last (the (balloons (ml_state L)))"
        from h NoteOff \<open>is_long_note NS\<close> op True obtain u where
          L': "L' = L\<lparr>note_symbol_last := CHR ''8'',
                    ml_events := (ml_events L)[?b := (ml_events L ! ?b)\<lparr>usec_end_abs := u\<rparr>]\<rparr>"
          by (auto simp: handle_event_def Let_def bind_err_eq_Inr)
        from op True obtain bs where bs: "balloons (ml_state L) = Some bs" "bs \<noteq> []"
          by (auto simp: balloon_open_eq_Inr split: option.splits)
        from inv' bs have d: "distinct bs" by (simp add: balloons_inv_def)
        have "last bs \<notin> set (butlast bs)"
          using d bs(2) by (metis append_butlast_last_id distinct_butlast not_distinct_conv_prefix)
        then have "\<And>j. j \<in> set (butlast bs) \<Longrightarrow> last bs \<noteq> j" by auto
        then show ?thesis
          unfolding L' using inv' bs
          by (auto simp: balloons_inv_def)
      qed
    qed
  qed
qed

lemma step_over_measures_induct [consumes 1, case_names stop flush]:
  assumes res: "step_over_measures NS t i s events tja ib = Some (Inr r)"
    and stop: "\<And>s events tja ib tick_end.
        get_tick_measure_end s = Inr tick_end \<Longrightarrow> \<not> tick_end \<le> t \<Longrightarrow>
        P s events tja ib (s, events, tja, ib)"
    and flush: "\<And>s events tja ib tick_end s1 events1 tja1 s2 r.
        get_tick_measure_end s = Inr tick_end \<Longrightarrow> tick_end \<le> t \<Longrightarrow>
        scan_measure NS s events ib i tja = Inr (s1, events1, tja1) \<Longrightarrow>
        advance_measure s1 = Inr s2 \<Longrightarrow>
        step_over_measures NS t i s2 events1 tja1 i = Some (Inr r) \<Longrightarrow>
        P s2 events1 tja1 i r \<Longrightarrow> P s events tja ib r"
  shows "P s events tja ib r"
  using res
proof (induction "nat (t - tick_measure_begin s)" arbitrary: s events tja ib rule: less_induct)
  case less
  note unf = step_over_measures.simps [of NS t i s events tja ib]
  show ?case
  proof (cases "get_tick_measure_end s")
    case (Inl err)
    with less.prems unf show ?thesis by simp
  next
    case (Inr tick_end)
    note te = Inr
    show ?thesis
    proof (cases "tick_end \<le> t")
      case False
      with te less.prems unf have "r = (s, events, tja, ib)" by simp
      with stop [OF te False] show ?thesis by simp
    next
      case True
      show ?thesis
      proof (cases "scan_measure NS s events ib i tja")
        case (Inl err)
        with te True less.prems unf show ?thesis by simp
      next
        case (Inr res1)
        obtain s1 events1 tja1 where res1: "res1 = (s1, events1, tja1)" by (cases res1)
        from Inr res1 have sm: "scan_measure NS s events ib i tja = Inr (s1, events1, tja1)"
          by simp
        show ?thesis
        proof (cases "advance_measure s1")
          case (Inl err)
          with te True sm less.prems unf show ?thesis by simp
        next
          case (Inr s2)
          from te True sm Inr less.prems unf have
            rec: "step_over_measures NS t i s2 events1 tja1 i = Some (Inr r)" by simp
          have "tick_measure_begin s1 = tick_measure_begin s"
            using scan_measure_frame [OF sm] by simp
          moreover have "tick_measure_begin s < t"
            using te True by (auto simp: get_tick_measure_end_eq_Inr)
          moreover have "tick_measure_begin s1 < tick_measure_begin s2"
            using Inr by (auto simp: advance_measure_eq_Inr)
          ultimately have "nat (t - tick_measure_begin s2) < nat (t - tick_measure_begin s)"
            by simp
          from less.hyps [OF this rec] have "P s2 events1 tja1 i r" .
          from flush [OF te True sm Inr rec this] show ?thesis .
        qed
      qed
    qed
  qed
qed

lemma scan_event_balloons_inv:
  assumes "scan_event NS b g L i = Inr L'"
    and "balloons_inv pos (ml_state L) (ml_events L)" and "pos \<le> i"
  shows "balloons_inv (Suc i) (ml_state L') (ml_events L')"
proof -
  from assms(1) obtain idiv where
    h: "handle_event NS (advance_cells L idiv) i (ml_events L ! i) = Inr L'"
    by (auto simp: scan_event_def Let_def bind_err_eq_Inr)
  from handle_event_balloons_inv [OF h _ assms(3)] assms(2) show ?thesis by simp
qed

lemma scan_events_balloons_inv:
  assumes "scan_events NS b g L [lo..<hi] = Inr L'"
    and "balloons_inv lo (ml_state L) (ml_events L)"
  shows "balloons_inv (max lo hi) (ml_state L') (ml_events L')"
  using assms
proof (induction "hi - lo" arbitrary: lo L)
  case 0
  then show ?case by (simp add: max_def)
next
  case (Suc n)
  then have lt: "lo < hi" by simp
  then have up: "[lo..<hi] = lo # [Suc lo..<hi]" by (simp add: upt_conv_Cons)
  from Suc.prems(1) obtain L1 where
    1: "scan_event NS b g L lo = Inr L1" and 2: "scan_events NS b g L1 [Suc lo..<hi] = Inr L'"
    by (auto simp: up bind_err_eq_Inr)
  from scan_event_balloons_inv [OF 1 Suc.prems(2)]
  have inv1: "balloons_inv (Suc lo) (ml_state L1) (ml_events L1)" by simp
  have "n = hi - Suc lo" using Suc.hyps(2) by simp
  from Suc.hyps(1) [OF this 2 inv1] lt show ?case by (simp add: max_def)
qed

lemma scan_measure_balloons_inv:
  assumes "scan_measure NS s events lo hi tja = Inr (s', events', tja')"
    and "balloons_inv lo s events"
  shows "balloons_inv (max lo hi) s' events'"
proof -
  from assms(1) obtain tick_end L where
    se: "scan_events NS (tick_measure_begin s)
          (tick_gcd_of events lo hi (tick_measure_begin s) tick_end)
          \<lparr>ml_state = s, ml_events = events, ml_tja = tja, is_line_start = True,
            idiv_last = 0, note_symbol_last = CHR ''0''\<rparr> [lo..<hi] = Inr L"
    and r: "s' = ml_state L" "events' = ml_events L"
    unfolding scan_measure_eq_Inr by auto
  from scan_events_balloons_inv [OF se] assms(2) r show ?thesis by simp
qed

lemma step_over_measures_balloons_inv:
  assumes "step_over_measures NS t i s events tja ib = Some (Inr (s', events', tja', ib'))"
    and "balloons_inv ib s events" and "ib \<le> i"
  shows "balloons_inv ib' s' events' \<and> ib' \<le> i \<and> length events' = length events"
proof -
  have "balloons_inv ib s events \<longrightarrow> ib \<le> i \<longrightarrow>
        (case (s', events', tja', ib') of (s', events', tja', ib') \<Rightarrow>
           balloons_inv ib' s' events' \<and> ib' \<le> i \<and> length events' = length events)"
    using assms(1)
  proof (induction rule: step_over_measures_induct)
    case (stop s events tja ib tick_end)
    then show ?case by simp
  next
    case (flush s events tja ib tick_end s1 events1 tja1 s2 r)
    show ?case
    proof (intro impI)
      assume inv: "balloons_inv ib s events" and le: "ib \<le> i"
      from scan_measure_balloons_inv [OF flush(3) inv] le
      have "balloons_inv i s1 events1" by (simp add: max_def)
      moreover have "balloons s2 = balloons s1"
        using flush(4) by (auto simp: advance_measure_eq_Inr)
      ultimately have "balloons_inv i s2 events1"
        by (auto elim: balloons_inv_cong)
      moreover have "length events1 = length events"
        using scan_measure_frame [OF flush(3)] by simp
      ultimately show "case r of (s', events', tja', ib') \<Rightarrow>
           balloons_inv ib' s' events' \<and> ib' \<le> i \<and> length events' = length events"
        using flush.IH by (simp split: prod.splits)
    qed
  qed
  with assms(2,3) show ?thesis by simp
qed

lemma chart_event_eq_Some_Inr:
  "chart_event NS s events tja ib i = Some (Inr r) \<longleftrightarrow>
     (\<exists>s1 events1 tja1 ib1.
        step_over_measures NS (tick_abs (events ! i)) i s events tja ib =
          Some (Inr (s1, events1, tja1, ib1)) \<and>
        r = (sync_time_signature s1 (events ! i), events1, tja1, ib1))"
  by (auto simp: chart_event_def Let_def split: option.splits sum.splits)

lemma sync_time_signature_balloons [simp]:
  "balloons (sync_time_signature s e) = balloons s"
  by (simp add: sync_time_signature_def split: message.splits)

lemma chart_event_balloons_inv:
  assumes "chart_event NS s events tja ib i = Some (Inr (s', events', tja', ib'))"
    and "balloons_inv ib s events" and "ib \<le> i"
  shows "balloons_inv ib' s' events' \<and> ib' \<le> i \<and> length events' = length events"
proof -
  from assms(1) obtain s1 where
    so: "step_over_measures NS (tick_abs (events ! i)) i s events tja ib =
          Some (Inr (s1, events', tja', ib'))"
    and s': "s' = sync_time_signature s1 (events ! i)"
    unfolding chart_event_eq_Some_Inr by auto
  from step_over_measures_balloons_inv [OF so assms(2,3)] s' show ?thesis
    by (auto elim: balloons_inv_cong)
qed

lemma chart_events_Cons_eq_Some_Inr:
  "chart_events NS s events tja ib (i # rest) = Some (Inr r) \<longleftrightarrow>
     (\<exists>s1 events1 tja1 ib1.
        chart_event NS s events tja ib i = Some (Inr (s1, events1, tja1, ib1)) \<and>
        chart_events NS s1 events1 tja1 ib1 rest = Some (Inr r))"
  by (auto split: option.splits sum.splits)

lemma chart_events_balloons_inv:
  assumes "chart_events NS s events tja ib [k..<n] = Some (Inr (s', events', tja', ib'))"
    and "balloons_inv ib s events" and "ib \<le> k" and "k \<le> n"
  shows "balloons_inv ib' s' events' \<and> ib' \<le> n \<and> length events' = length events"
  using assms
proof (induction "n - k" arbitrary: k s events tja ib)
  case 0
  then show ?case by simp
next
  case (Suc m)
  then have lt: "k < n" by simp
  then have up: "[k..<n] = k # [Suc k..<n]" by (simp add: upt_conv_Cons)
  from Suc.prems(1) obtain s1 events1 tja1 ib1 where
    1: "chart_event NS s events tja ib k = Some (Inr (s1, events1, tja1, ib1))" and
    2: "chart_events NS s1 events1 tja1 ib1 [Suc k..<n] = Some (Inr (s', events', tja', ib'))"
    unfolding up chart_events_Cons_eq_Some_Inr by auto
  from chart_event_balloons_inv [OF 1 Suc.prems(2,3)] have
    inv1: "balloons_inv ib1 s1 events1" and le1: "ib1 \<le> Suc k"
    and len1: "length events1 = length events" by simp_all
  have m: "m = n - Suc k" using Suc.hyps(2) by simp
  from Suc.hyps(1) [OF m 2 inv1 le1] lt len1 show ?case by simp
qed

lemma scan_chart_eq_Some_Inr:
  "scan_chart NS s events tja = Some (Inr r) \<longleftrightarrow>
     (\<exists>s1 events1 tja1 ib1.
        chart_events NS s events tja 0 [0..<length events] = Some (Inr (s1, events1, tja1, ib1)) \<and>
        scan_measure NS s1 events1 ib1 (length events1) tja1 = Inr r)"
  by (auto simp: scan_chart_def split: option.splits sum.splits)

lemma scan_chart_balloons_inv:
  assumes "scan_chart NS s events tja = Some (Inr (s', events', tja'))"
    and "balloons s = None"
  shows "balloons_inv (length events) s' events'"
proof -
  from assms(1) obtain s1 events1 tja1 ib1 where
    ce: "chart_events NS s events tja 0 [0..<length events] = Some (Inr (s1, events1, tja1, ib1))"
    and sm: "scan_measure NS s1 events1 ib1 (length events1) tja1 = Inr (s', events', tja')"
    unfolding scan_chart_eq_Some_Inr by auto
  have "balloons_inv 0 s events" using assms(2) by (simp add: balloons_inv_def)
  from chart_events_balloons_inv [OF ce this] have
    inv1: "balloons_inv ib1 s1 events1" and le: "ib1 \<le> length events"
    and len: "length events1 = length events" by simp_all
  from scan_measure_balloons_inv [OF sm inv1] le len show ?thesis by (simp add: max_def)
qed

lemma handle_event_open_ignored:
  assumes "is_long_note NS" and "handle_event NS L i e = Inr L'" and "msg e = NoteOn c p v"
    and "balloon_open (ml_state L) (ml_events L) = Inr True"
  shows "L' = L"
  using assms by (simp add: handle_event_def Let_def)

lemma handle_event_open_appends:
  assumes "is_long_note NS" and "handle_event NS L i e = Inr L'" and "msg e = NoteOn c p v"
    and "balloon_open (ml_state L) (ml_events L) = Inr False"
  shows "balloons (ml_state L') =
           Some ((case balloons (ml_state L) of None \<Rightarrow> [] | Some bs \<Rightarrow> bs) @ [i])"
  using assms by (auto simp: handle_event_def Let_def bind_err_eq_Inr)

lemma handle_event_close:
  assumes "is_long_note NS" and "handle_event NS L i e = Inr L'" and "msg e = NoteOff c p v"
    and "balloon_open (ml_state L) (ml_events L) = Inr True"
  shows "balloons (ml_state L') = balloons (ml_state L) \<and>
         (\<forall>bs. balloons (ml_state L) = Some bs \<longrightarrow> last bs < length (ml_events L) \<longrightarrow>
            get_usec_at (ml_state L) (tick_abs e) = Inr (usec_end_abs (ml_events L' ! last bs)))"
  using assms by (auto simp: handle_event_def Let_def bind_err_eq_Inr)

text \<open>
  Claim C9. A scan that starts without a balloon list (as every scan of \<open>main\<close> does)
  ends with a balloon list in which every record but the last is terminated
  (\<open>usec_end_abs >= 0\<close>), and every single event handled on the way keeps it so: at
  most one record is unterminated, and it is the most recently appended one. For a
  long note symbol, a note-on while a balloon is open changes nothing (it is not
  queued), a note-on while none is open appends the event's address, and a note-off
  while one is open writes the time of its tick into the last record and leaves the
  list as it is.
\<close>

theorem balloons_at_most_one_open:
  "(balloons s = None \<longrightarrow> scan_chart NS s events tja = Some (Inr (s', events', tja')) \<longrightarrow>
      balloons_inv (length events) s' events' \<and>
      (\<forall>bs. balloons s' = Some bs \<longrightarrow>
         bs \<noteq> [] \<and> (\<forall>j \<in> set (butlast bs). 0 \<le> usec_end_abs (events' ! j)))) \<and>
   (handle_event NS L i e = Inr L' \<longrightarrow> balloons_inv pos (ml_state L) (ml_events L) \<longrightarrow>
    pos \<le> i \<longrightarrow>
      balloons_inv (Suc i) (ml_state L') (ml_events L')) \<and>
   (is_long_note NS \<longrightarrow> handle_event NS L i e = Inr L' \<longrightarrow> msg e = NoteOn c p v \<longrightarrow>
      (balloon_open (ml_state L) (ml_events L) = Inr True \<longrightarrow> L' = L) \<and>
      (balloon_open (ml_state L) (ml_events L) = Inr False \<longrightarrow>
         balloons (ml_state L') =
           Some ((case balloons (ml_state L) of None \<Rightarrow> [] | Some bs \<Rightarrow> bs) @ [i]))) \<and>
   (is_long_note NS \<longrightarrow> handle_event NS L i e = Inr L' \<longrightarrow> msg e = NoteOff c p v \<longrightarrow>
    balloon_open (ml_state L) (ml_events L) = Inr True \<longrightarrow>
      balloons (ml_state L') = balloons (ml_state L) \<and>
      (\<forall>bs. balloons (ml_state L) = Some bs \<longrightarrow> last bs < length (ml_events L) \<longrightarrow>
         get_usec_at (ml_state L) (tick_abs e) = Inr (usec_end_abs (ml_events L' ! last bs))))"
proof (intro conjI impI)
  assume a: "balloons s = None" "scan_chart NS s events tja = Some (Inr (s', events', tja'))"
  from scan_chart_balloons_inv [OF a(2,1)]
  show inv: "balloons_inv (length events) s' events'" .
  then show "\<forall>bs. balloons s' = Some bs \<longrightarrow>
         bs \<noteq> [] \<and> (\<forall>j \<in> set (butlast bs). 0 \<le> usec_end_abs (events' ! j))"
    by (auto simp: balloons_inv_def)
next
  assume "handle_event NS L i e = Inr L'" "balloons_inv pos (ml_state L) (ml_events L)" "pos \<le> i"
  then show "balloons_inv (Suc i) (ml_state L') (ml_events L')"
    by (rule handle_event_balloons_inv)
next
  assume "is_long_note NS" "handle_event NS L i e = Inr L'" "msg e = NoteOn c p v"
    "balloon_open (ml_state L) (ml_events L) = Inr True"
  then show "L' = L" by (rule handle_event_open_ignored)
next
  assume "is_long_note NS" "handle_event NS L i e = Inr L'" "msg e = NoteOn c p v"
    "balloon_open (ml_state L) (ml_events L) = Inr False"
  then show "balloons (ml_state L') =
           Some ((case balloons (ml_state L) of None \<Rightarrow> [] | Some bs \<Rightarrow> bs) @ [i])"
    by (rule handle_event_open_appends)
next
  assume a: "is_long_note NS" "handle_event NS L i e = Inr L'" "msg e = NoteOff c p v"
    "balloon_open (ml_state L) (ml_events L) = Inr True"
  from handle_event_close [OF a]
  show "balloons (ml_state L') = balloons (ml_state L)"
    and "\<forall>bs. balloons (ml_state L) = Some bs \<longrightarrow> last bs < length (ml_events L) \<longrightarrow>
         get_usec_at (ml_state L) (tick_abs e) = Inr (usec_end_abs (ml_events L' ! last bs))"
    by simp_all
qed

theorem balloons_at_most_one_open_witness:
  "balloons_inv 2 ((init_state 480)\<lparr>balloons := Some [0]\<rparr>)
     [(mk_event (NoteOn 0 69 100) 0)\<lparr>usec_abs := 0, usec_end_abs := 250000\<rparr>,
      mk_event (NoteOff 0 69 64) 240] \<and>
   balloons_inv (Suc 1)
     (ml_state \<lparr>ml_state = (init_state 480)\<lparr>balloons := Some [0]\<rparr>,
        ml_events = [(mk_event (NoteOn 0 69 100) 0)\<lparr>usec_abs := 0, usec_end_abs := 250000\<rparr>,
                     mk_event (NoteOff 0 69 64) 240],
        ml_tja = None, is_line_start = False, idiv_last = 1, note_symbol_last = CHR ''8''\<rparr>)
     [(mk_event (NoteOn 0 69 100) 0)\<lparr>usec_abs := 0, usec_end_abs := 250000\<rparr>,
      mk_event (NoteOff 0 69 64) 240] \<and>
   get_usec_at ((init_state 480)\<lparr>balloons := Some [0]\<rparr>) 240 = Inr 250000"
proof -
  let ?on = "mk_event (NoteOn 0 69 100) 0"
  let ?off = "mk_event (NoteOff 0 69 64) 240"
  let ?s1 = "(init_state 480)\<lparr>balloons := Some [0]\<rparr>"
  let ?ev1 = "[?on\<lparr>usec_abs := 0, usec_end_abs := - 1\<rparr>, ?off]"
  let ?ev2 = "[?on\<lparr>usec_abs := 0, usec_end_abs := 250000\<rparr>, ?off]"
  let ?L = "\<lparr>ml_state = ?s1, ml_events = ?ev1, ml_tja = None, is_line_start = False,
             idiv_last = 1, note_symbol_last = CHR ''0''\<rparr>"
  let ?L' = "\<lparr>ml_state = ?s1, ml_events = ?ev2, ml_tja = None, is_line_start = False,
             idiv_last = 1, note_symbol_last = CHR ''8''\<rparr>"
  have long: "is_long_note (CHR ''7'')" by (simp add: is_long_note_def LONG_NOTES_def)
  have none: "balloons (init_state 480) = None" by (simp add: init_state_def)
  have run: "scan_chart (CHR ''7'') (init_state 480) [?on, ?off] None = Some (Inr (?s1, ?ev2, None))"
    by code_simp
  have step: "handle_event (CHR ''7'') ?L 1 ?off = Inr ?L'"
    by code_simp
  have inv: "balloons_inv 1 (ml_state ?L) (ml_events ?L)"
    by (simp add: balloons_inv_def)
  have m: "msg ?off = NoteOff 0 69 64" by (simp add: mk_event_def)
  have op: "balloon_open (ml_state ?L) (ml_events ?L) = Inr True"
    by (simp add: balloon_open_def mk_event_def)
  have b: "balloons (ml_state ?L) = Some [0]" by simp
  from balloons_at_most_one_open [of "init_state 480" "CHR ''7''" "[?on, ?off]" None ?s1 ?ev2 None
      ?L 1 ?off ?L' 1 0 69 64]
    none run step inv long m op
  have 1: "balloons_inv (length [?on, ?off]) ?s1 ?ev2"
    and 2: "balloons_inv (Suc 1) (ml_state ?L') (ml_events ?L')"
    and 3: "\<forall>bs. balloons (ml_state ?L) = Some bs \<longrightarrow> last bs < length (ml_events ?L) \<longrightarrow>
         get_usec_at (ml_state ?L) (tick_abs ?off) = Inr (usec_end_abs (ml_events ?L' ! last bs))"
    by blast+
  from 3 b have "get_usec_at ?s1 (tick_abs ?off) = Inr (usec_end_abs (?ev2 ! 0))" by simp
  then have "get_usec_at ?s1 240 = Inr 250000" by (simp add: mk_event_def)
  with 1 2 show ?thesis by (simp add: numeral_2_eq_2)
qed

section \<open>Time-signature changes\<close>

lemma scan_events_append:
  "scan_events NS b g L (xs @ ys) =
     bind_err (scan_events NS b g L xs) (\<lambda>L1. scan_events NS b g L1 ys)"
proof (induction xs arbitrary: L)
  case Nil
  then show ?case by simp
next
  case (Cons x xs)
  then show ?case by (cases "scan_event NS b g L x") simp_all
qed

lemma handle_event_time_signature:
  assumes "handle_event NS L i e = Inr L'" and "msg e = TimeSignature n d"
  shows "tsign_upper (ml_state L') = n \<and> tsign_lower (ml_state L') = d \<and>
         (\<forall>out. ml_tja L = Some out \<longrightarrow>
            (\<exists>extra. ml_tja L' = Some (out @ extra) \<and> MeasureLine n d \<in> set extra))"
proof -
  let ?L0 = "L\<lparr>ml_state := (ml_state L)\<lparr>tsign_upper := n, tsign_lower := d\<rparr>\<rparr>"
  from assms have L': "L' = (ensure_line_start ?L0)
      \<lparr>ml_tja := emit (ml_tja (ensure_line_start ?L0)) (MeasureLine n d)\<rparr>"
    by (simp add: handle_event_def Let_def)
  from ensure_line_start_sink [of ?L0] obtain extra where
    ex: "ml_tja (ensure_line_start ?L0) =
           (case ml_tja L of None \<Rightarrow> None | Some out \<Rightarrow> Some (out @ extra))"
    by auto
  show ?thesis
  proof (intro conjI allI impI)
    show "tsign_upper (ml_state L') = n" "tsign_lower (ml_state L') = d"
      unfolding L' by simp_all
    fix out assume "ml_tja L = Some out"
    with ex have "ml_tja L' = Some (out @ (extra @ [MeasureLine n d]))"
      unfolding L' by simp
    then show "\<exists>extra. ml_tja L' = Some (out @ extra) \<and> MeasureLine n d \<in> set extra"
      by (intro exI [of _ "extra @ [MeasureLine n d]"]) simp
  qed
qed

lemma scan_events_measure_line:
  assumes se: "scan_events NS b g L [lo..<hi] = Inr L'"
    and i: "lo \<le> i" "i < hi" "i < length (ml_events L)"
    and m: "msg (ml_events L ! i) = TimeSignature n d"
    and out: "ml_tja L = Some out"
  shows "\<exists>extra. ml_tja L' = Some (out @ extra) \<and> MeasureLine n d \<in> set extra"
proof -
  have "[lo..<i + (hi - i)] = [lo..<i] @ [i..<i + (hi - i)]"
    using i(1) by (rule upt_add_eq_append)
  then have split: "[lo..<hi] = [lo..<i] @ i # [Suc i..<hi]"
    using i(2) by (simp add: upt_conv_Cons)
  from se obtain L1 L2 where
    1: "scan_events NS b g L [lo..<i] = Inr L1" and
    2: "scan_event NS b g L1 i = Inr L2" and
    3: "scan_events NS b g L2 [Suc i..<hi] = Inr L'"
    unfolding split scan_events_append by (auto simp: bind_err_eq_Inr)
  from scan_events_sink [OF 1] out obtain x1 where x1: "ml_tja L1 = Some (out @ x1)"
    by auto
  from scan_events_frame [OF 1] have f1: "length (ml_events L1) = length (ml_events L)"
    "map msg (ml_events L1) = map msg (ml_events L)" by simp_all
  have "msg (ml_events L1 ! i) = map msg (ml_events L1) ! i" using i(3) f1(1) by simp
  also have "\<dots> = msg (ml_events L ! i)" using i(3) by (simp add: f1(2))
  finally have m1: "msg (ml_events L1 ! i) = TimeSignature n d" using m by simp
  from 2 obtain idiv where
    h: "handle_event NS (advance_cells L1 idiv) i (ml_events L1 ! i) = Inr L2"
    by (auto simp: scan_event_def Let_def bind_err_eq_Inr)
  from advance_cells_sink [of L1 idiv] x1 obtain xa where
    xa: "ml_tja (advance_cells L1 idiv) = Some (out @ x1 @ xa)" by auto
  from handle_event_time_signature [OF h m1] xa obtain x2 where
    x2: "ml_tja L2 = Some ((out @ x1 @ xa) @ x2)" "MeasureLine n d \<in> set x2" by blast
  from scan_events_sink [OF 3] x2(1) obtain x3 where
    x3: "ml_tja L' = Some (((out @ x1 @ xa) @ x2) @ x3)" by auto
  show ?thesis
    using x3 x2(2) by (intro exI [of _ "x1 @ xa @ x2 @ x3"]) simp
qed

lemma measure_cells_directive:
  assumes sm: "scan_measure NS s events lo hi (Some out) = Inr (s', events', tja')"
    and te: "get_tick_measure_end s = Inr tick_end"
    and inside: "\<forall>j. lo \<le> j \<and> j < hi \<longrightarrow> tick_abs (events ! j) < tick_end"
    and i: "lo \<le> i" "i < hi" and m: "msg (events ! i) = TimeSignature n d"
  shows "\<exists>items. tja' = Some (out @ items @ [MeasureEnd]) \<and> MeasureEnd \<notin> set items \<and>
           MeasureLine n d \<in> set items \<and>
           int (cell_count items) * tick_gcd_of events lo hi (tick_measure_begin s) tick_end
             = tick_end - tick_measure_begin s"
proof -
  have ne: "lo < hi" using i by simp
  from measure_cells [OF sm ne te inside] obtain items where
    items: "tja' = Some (out @ items @ [MeasureEnd])" "MeasureEnd \<notin> set items"
      "int (cell_count items) * tick_gcd_of events lo hi (tick_measure_begin s) tick_end
             = tick_end - tick_measure_begin s" by blast
  let ?g = "tick_gcd_of events lo hi (tick_measure_begin s) tick_end"
  let ?L0 = "\<lparr>ml_state = s, ml_events = events, ml_tja = Some out, is_line_start = True,
            idiv_last = 0, note_symbol_last = CHR ''0''\<rparr>"
  from sm te obtain L where
    guard: "\<not> (lo < hi \<and> length events < hi)" and
    se: "scan_events NS (tick_measure_begin s) ?g ?L0 [lo..<hi] = Inr L" and
    res: "tja' = emit (if lo < hi \<and> idiv_last L < (tick_end - tick_measure_begin s) div ?g
                   then emit (ml_tja L) (Cells (cell_run (note_symbol_last L)
                          ((tick_end - tick_measure_begin s) div ?g) (idiv_last L)))
                   else ml_tja L) MeasureEnd"
    unfolding scan_measure_eq_Inr by auto
  have il: "i < length (ml_events ?L0)" using guard ne i by simp
  from scan_events_measure_line [OF se i(1,2) il] m obtain extra where
    extra: "ml_tja L = Some (out @ extra)" "MeasureLine n d \<in> set extra" by auto
  from res extra(1) obtain tl where "tja' = Some (out @ extra @ tl @ [MeasureEnd])"
    by (cases "lo < hi \<and> idiv_last L < (tick_end - tick_measure_begin s) div ?g") auto
  with items(1) have "items = extra @ tl" by simp
  with extra(2) have "MeasureLine n d \<in> set items" by simp
  with items show ?thesis by blast
qed

lemma chart_event_no_flush:
  assumes "get_tick_measure_end s = Inr tick_end" and "tick_abs (events ! i) < tick_end"
  shows "chart_event NS s events tja ib i =
           Some (Inr (sync_time_signature s (events ! i), events, tja, ib))"
  using assms
  by (simp add: chart_event_def Let_def step_over_measures.simps [of NS _ i s events tja ib])

text \<open>
  Claim C1, as the code has it. Let a time-signature change \<open>n/d\<close> sit at tick \<open>t\<close>
  of the timeline. If \<open>t\<close> lies strictly inside the current measure, \<open>scan_chart\<close>'s
  step for that event flushes nothing and leaves the state as it is: the measure does
  not end at \<open>t\<close> and the signature is not applied there. When the measure holding the
  event is flushed (all its events before the measure's end), it is printed in full:
  the cells before the terminator, times the unit, give the measure length fixed at the
  start of the flush, and the directive \<open>#MEASURE n/d\<close> stands among them; handling
  the event sets the signature for what follows. If \<open>t\<close> is the start of the current
  measure (tick 0 for the first measure), the step applies the change at once, and the
  length of that measure is \<open>max(1, ticks_per_beat * 4 * n // d)\<close>.
\<close>

theorem mid_measure_signature_deferred:
  assumes te: "get_tick_measure_end s = Inr tick_end"
    and ev: "msg (events ! i) = TimeSignature n d" "tick_abs (events ! i) = t"
  shows "(tick_measure_begin s < t \<longrightarrow> t < tick_end \<longrightarrow>
            chart_event NS s events tja ib i = Some (Inr (s, events, tja, ib))) \<and>
         (ib \<le> i \<longrightarrow> i < hi \<longrightarrow>
          (\<forall>j. ib \<le> j \<and> j < hi \<longrightarrow> tick_abs (events ! j) < tick_end) \<longrightarrow>
          scan_measure NS s events ib hi (Some out) = Inr (s', events', tja') \<longrightarrow>
            (\<exists>items. tja' = Some (out @ items @ [MeasureEnd]) \<and> MeasureEnd \<notin> set items \<and>
               MeasureLine n d \<in> set items \<and>
               int (cell_count items) * tick_gcd_of events ib hi (tick_measure_begin s) tick_end
                 = tick_end - tick_measure_begin s)) \<and>
         (handle_event NS L i (events ! i) = Inr L' \<longrightarrow>
            tsign_upper (ml_state L') = n \<and> tsign_lower (ml_state L') = d) \<and>
         (t = tick_measure_begin s \<longrightarrow> d \<noteq> 0 \<longrightarrow>
            (\<exists>s1. chart_event NS s events tja ib i = Some (Inr (s1, events, tja, ib)) \<and>
                  get_ticks_per_measure s1 = Inr (max 1 (ticks_per_beat s * 4 * n div d))))"
proof (intro conjI impI)
  assume "tick_measure_begin s < t" "t < tick_end"
  with chart_event_no_flush [OF te, of events i NS tja ib] ev
  show "chart_event NS s events tja ib i = Some (Inr (s, events, tja, ib))"
    by (simp add: sync_time_signature_def)
next
  assume "ib \<le> i" "i < hi"
    "\<forall>j. ib \<le> j \<and> j < hi \<longrightarrow> tick_abs (events ! j) < tick_end"
    "scan_measure NS s events ib hi (Some out) = Inr (s', events', tja')"
  from measure_cells_directive [OF this(4) te this(3,1,2) ev(1)]
  show "\<exists>items. tja' = Some (out @ items @ [MeasureEnd]) \<and> MeasureEnd \<notin> set items \<and>
               MeasureLine n d \<in> set items \<and>
               int (cell_count items) * tick_gcd_of events ib hi (tick_measure_begin s) tick_end
                 = tick_end - tick_measure_begin s" .
next
  assume h: "handle_event NS L i (events ! i) = Inr L'"
  from handle_event_time_signature [OF h ev(1)]
  show "tsign_upper (ml_state L') = n" "tsign_lower (ml_state L') = d" by simp_all
next
  assume t: "t = tick_measure_begin s" and d: "d \<noteq> 0"
  have "t < tick_end" using te t by (auto simp: get_tick_measure_end_eq_Inr)
  with chart_event_no_flush [OF te, of events i NS tja ib] ev t
  have "chart_event NS s events tja ib i =
          Some (Inr (s\<lparr>tsign_upper := n, tsign_lower := d\<rparr>, events, tja, ib))"
    by (simp add: sync_time_signature_def)
  moreover have "get_ticks_per_measure (s\<lparr>tsign_upper := n, tsign_lower := d\<rparr>) =
      Inr (max 1 (ticks_per_beat s * 4 * n div d))"
    using d by (simp add: get_ticks_per_measure_eq_Inr)
  ultimately show "\<exists>s1. chart_event NS s events tja ib i = Some (Inr (s1, events, tja, ib)) \<and>
                  get_ticks_per_measure s1 = Inr (max 1 (ticks_per_beat s * 4 * n div d))"
    by blast
qed

theorem mid_measure_signature_deferred_witness:
  "chart_event (CHR ''7'') (init_state 2) [mk_event (TimeSignature 1 4) 5] (Some []) 0 0 =
     Some (Inr (init_state 2, [mk_event (TimeSignature 1 4) 5], Some [], 0)) \<and>
   (\<exists>items. [Cells ''00000'', Newline, MeasureLine 1 4, Cells ''000'', MeasureEnd] =
             items @ [MeasureEnd] \<and> MeasureLine 1 4 \<in> set items \<and>
             int (cell_count items) * tick_gcd_of [mk_event (TimeSignature 1 4) 5] 0 1 0 8 = 8) \<and>
   (\<exists>s1. chart_event (CHR ''7'') (init_state 2) [mk_event (TimeSignature 3 4) 0] None 0 0 =
            Some (Inr (s1, [mk_event (TimeSignature 3 4) 0], None, 0)) \<and>
          get_ticks_per_measure s1 = Inr 6)"
proof -
  let ?e = "mk_event (TimeSignature 1 4) 5"
  let ?s = "init_state 2"
  have te: "get_tick_measure_end ?s = Inr 8"
    by (simp add: get_tick_measure_end_eq_Inr init_state_def)
  have m: "msg ([?e] ! 0) = TimeSignature 1 4" and t: "tick_abs ([?e] ! 0) = 5"
    by (simp_all add: mk_event_def)
  have b: "tick_measure_begin ?s = 0" by (simp add: init_state_def)
  have sm: "scan_measure (CHR ''7'') ?s [?e] 0 1 (Some []) =
      Inr (?s\<lparr>tsign_upper := 1, tsign_lower := 4\<rparr>, [?e],
           Some [Cells ''00000'', Newline, MeasureLine 1 4, Cells ''000'', MeasureEnd])"
    by code_simp
  have ins: "\<forall>j. 0 \<le> j \<and> j < (1::nat) \<longrightarrow> tick_abs ([?e] ! j) < 8"
    by (simp add: mk_event_def)
  note th = mid_measure_signature_deferred [OF te m t, of "CHR ''7''" "Some []" 0 1 "[]"
      "?s\<lparr>tsign_upper := 1, tsign_lower := 4\<rparr>" "[?e]"
      "Some [Cells ''00000'', Newline, MeasureLine 1 4, Cells ''000'', MeasureEnd]"]
  from th b have 1: "chart_event (CHR ''7'') ?s [?e] (Some []) 0 0 =
     Some (Inr (?s, [?e], Some [], 0))" by simp
  from th sm ins b have 2: "\<exists>items. [Cells ''00000'', Newline, MeasureLine 1 4, Cells ''000'', MeasureEnd] =
             items @ [MeasureEnd] \<and> MeasureLine 1 4 \<in> set items \<and>
             int (cell_count items) * tick_gcd_of [?e] 0 1 0 8 = 8"
    by auto
  let ?e0 = "mk_event (TimeSignature 3 4) 0"
  have m0: "msg ([?e0] ! 0) = TimeSignature 3 4" and t0: "tick_abs ([?e0] ! 0) = 0"
    by (simp_all add: mk_event_def)
  have tpb: "ticks_per_beat ?s = 2" by (simp add: init_state_def)
  from mid_measure_signature_deferred [OF te m0 t0, of "CHR ''7''" None 0] b tpb
  have 3: "\<exists>s1. chart_event (CHR ''7'') ?s [?e0] None 0 0 = Some (Inr (s1, [?e0], None, 0)) \<and>
          get_ticks_per_measure s1 = Inr 6"
    by simp
  from 1 2 3 show ?thesis by blast
qed

text \<open>
  Claim C1 as stated fails. At 2 ticks per beat the 4/4 measure has 8 ticks; a change
  to 1/4 at tick 5 does not close the measure at tick 5: the measure is printed with
  unit 1 and all its 8 cells, the directive after the fifth.
\<close>

theorem mid_measure_signature_counterexample:
  "scan_chart (CHR ''7'') (init_state 2) [mk_event (TimeSignature 1 4) 5] (Some []) =
     Some (Inr ((init_state 2)\<lparr>tsign_upper := 1, tsign_lower := 4\<rparr>,
       [mk_event (TimeSignature 1 4) 5],
       Some [Cells ''00000'', Newline, MeasureLine 1 4, Cells ''000'', MeasureEnd])) \<and>
   get_tick_measure_end (init_state 2) = Inr 8 \<and>
   tick_gcd_of [mk_event (TimeSignature 1 4) 5] 0 1 0 8 = 1 \<and>
   cell_count [Cells ''00000'', Newline, MeasureLine 1 4, Cells ''000''] = 8"
proof -
  have "scan_chart (CHR ''7'') (init_state 2) [mk_event (TimeSignature 1 4) 5] (Some []) =
     Some (Inr ((init_state 2)\<lparr>tsign_upper := 1, tsign_lower := 4\<rparr>,
       [mk_event (TimeSignature 1 4) 5],
       Some [Cells ''00000'', Newline, MeasureLine 1 4, Cells ''000'', MeasureEnd]))"
    by code_simp
  moreover have "get_tick_measure_end (init_state 2) = Inr 8"
    by (simp add: get_tick_measure_end_eq_Inr init_state_def)
  moreover have "tick_gcd_of [mk_event (TimeSignature 1 4) 5] 0 1 0 8 = 1"
    by code_simp
  ultimately show ?thesis by simp
qed

section \<open>Exactness of the quantization unit\<close>

lemma tick_rels_of_not_empty:
  "remove_duplications (tick_rels_of events lo hi tick_beg tick_end) \<noteq> []"
  by (simp add: remove_duplications_eq tick_rels_of_def)

lemma tick_rels_of_sentinel:
  "tick_end - tick_beg \<in> set (remove_duplications (tick_rels_of events lo hi tick_beg tick_end))"
  by (simp add: remove_duplications_eq tick_rels_of_def)

lemma quantization_unit_exact:
  assumes te: "get_tick_measure_end s = Inr tick_end"
  shows "tick_gcd_of events lo hi (tick_measure_begin s) tick_end =
           Gcd ({tick_abs (events ! i) - tick_measure_begin s | i.
                   lo \<le> i \<and> i < hi \<and> tick_measure_begin s < tick_abs (events ! i)}
                \<union> {tick_end - tick_measure_begin s})"
    and "remove_duplications (tick_rels_of events lo hi (tick_measure_begin s) tick_end) \<noteq> []"
    and "tick_end - tick_measure_begin s
           \<in> set (remove_duplications (tick_rels_of events lo hi (tick_measure_begin s) tick_end))"
    and "1 \<le> tick_end - tick_measure_begin s"
    and "1 \<le> tick_gcd_of events lo hi (tick_measure_begin s) tick_end"
    and "tick_gcd_of events lo hi (tick_measure_begin s) tick_end dvd tick_end - tick_measure_begin s"
    and "(tick_end - tick_measure_begin s) div tick_gcd_of events lo hi (tick_measure_begin s) tick_end
           * tick_gcd_of events lo hi (tick_measure_begin s) tick_end = tick_end - tick_measure_begin s"
    and "lo \<le> i \<Longrightarrow> i < hi \<Longrightarrow> tick_measure_begin s \<le> tick_abs (events ! i) \<Longrightarrow>
         (tick_abs (events ! i) - tick_measure_begin s)
            div tick_gcd_of events lo hi (tick_measure_begin s) tick_end
           * tick_gcd_of events lo hi (tick_measure_begin s) tick_end
         = tick_abs (events ! i) - tick_measure_begin s"
proof -
  let ?b = "tick_measure_begin s"
  show "tick_gcd_of events lo hi ?b tick_end =
           Gcd ({tick_abs (events ! i) - ?b | i. lo \<le> i \<and> i < hi \<and> ?b < tick_abs (events ! i)}
                \<union> {tick_end - ?b})"
    by (rule tick_gcd_of_eq_Gcd)
  show "remove_duplications (tick_rels_of events lo hi ?b tick_end) \<noteq> []"
    by (rule tick_rels_of_not_empty)
  show "tick_end - ?b \<in> set (remove_duplications (tick_rels_of events lo hi ?b tick_end))"
    by (rule tick_rels_of_sentinel)
  have lt: "?b < tick_end" using te by (auto simp: get_tick_measure_end_eq_Inr)
  then show "1 \<le> tick_end - ?b" by simp
  show "1 \<le> tick_gcd_of events lo hi ?b tick_end" using lt by (rule tick_gcd_of_pos)
  show d: "tick_gcd_of events lo hi ?b tick_end dvd tick_end - ?b"
    by (rule tick_gcd_of_dvd_length)
  then show "(tick_end - ?b) div tick_gcd_of events lo hi ?b tick_end
           * tick_gcd_of events lo hi ?b tick_end = tick_end - ?b" by simp
  assume "lo \<le> i" "i < hi" "?b \<le> tick_abs (events ! i)"
  then have "tick_gcd_of events lo hi ?b tick_end dvd tick_abs (events ! i) - ?b"
    by (rule tick_gcd_of_dvd_offset)
  then show "(tick_abs (events ! i) - ?b) div tick_gcd_of events lo hi ?b tick_end
           * tick_gcd_of events lo hi ?b tick_end = tick_abs (events ! i) - ?b" by simp
qed

section \<open>The lane assignor\<close>

lemma find_free_slot_None:
  "find_free_slot g t n h slots k = None \<longleftrightarrow>
     (\<forall>a \<in> set slots. \<not> slot_free t (cut_same_note g t n (h ! a)))"
  by (induction slots arbitrary: k) (auto simp: Let_def)

lemma find_free_slot_Some:
  "find_free_slot g t n h slots k = Some (i, e') \<longleftrightarrow>
     (\<exists>j < length slots. i = k + j \<and> e' = cut_same_note g t n (h ! (slots ! j)) \<and>
        slot_free t e' \<and>
        (\<forall>j' < j. \<not> slot_free t (cut_same_note g t n (h ! (slots ! j')))))"
proof (induction slots arbitrary: k)
  case Nil
  then show ?case by simp
next
  case (Cons a slots)
  show ?case
  proof (cases "slot_free t (cut_same_note g t n (h ! a))")
    case True
    show ?thesis
    proof
      assume "find_free_slot g t n h (a # slots) k = Some (i, e')"
      with True have "i = k" "e' = cut_same_note g t n (h ! a)" by (simp_all add: Let_def)
      with True show "\<exists>j < length (a # slots). i = k + j \<and>
          e' = cut_same_note g t n (h ! ((a # slots) ! j)) \<and> slot_free t e' \<and>
          (\<forall>j' < j. \<not> slot_free t (cut_same_note g t n (h ! ((a # slots) ! j'))))"
        by (intro exI [of _ 0]) simp
    next
      assume "\<exists>j < length (a # slots). i = k + j \<and>
          e' = cut_same_note g t n (h ! ((a # slots) ! j)) \<and> slot_free t e' \<and>
          (\<forall>j' < j. \<not> slot_free t (cut_same_note g t n (h ! ((a # slots) ! j'))))"
      then obtain j where j: "j < length (a # slots)" "i = k + j"
          "e' = cut_same_note g t n (h ! ((a # slots) ! j))"
          "\<forall>j' < j. \<not> slot_free t (cut_same_note g t n (h ! ((a # slots) ! j')))" by blast
      have "j = 0"
      proof (rule ccontr)
        assume "j \<noteq> 0"
        then have "0 < j" by simp
        with j(4) have "\<not> slot_free t (cut_same_note g t n (h ! ((a # slots) ! 0)))" by blast
        with True show False by simp
      qed
      with j True show "find_free_slot g t n h (a # slots) k = Some (i, e')"
        by (simp add: Let_def)
    qed
  next
    case False
    have "find_free_slot g t n h (a # slots) k = Some (i, e') \<longleftrightarrow>
          find_free_slot g t n h slots (Suc k) = Some (i, e')"
      using False by (simp add: Let_def)
    also have "\<dots> \<longleftrightarrow> (\<exists>j < length slots. i = Suc k + j \<and>
        e' = cut_same_note g t n (h ! (slots ! j)) \<and> slot_free t e' \<and>
        (\<forall>j' < j. \<not> slot_free t (cut_same_note g t n (h ! (slots ! j')))))"
      by (rule Cons.IH)
    also have "\<dots> \<longleftrightarrow> (\<exists>j < length (a # slots). i = k + j \<and>
          e' = cut_same_note g t n (h ! ((a # slots) ! j)) \<and> slot_free t e' \<and>
          (\<forall>j' < j. \<not> slot_free t (cut_same_note g t n (h ! ((a # slots) ! j')))))"
      (is "?l \<longleftrightarrow> ?r")
    proof
      assume ?l
      then obtain j where j: "j < length slots" "i = Suc k + j"
        "e' = cut_same_note g t n (h ! (slots ! j))" "slot_free t e'"
        "\<forall>j' < j. \<not> slot_free t (cut_same_note g t n (h ! (slots ! j')))" by blast
      have "\<forall>j' < Suc j. \<not> slot_free t (cut_same_note g t n (h ! ((a # slots) ! j')))"
      proof (intro allI impI)
        fix j' assume "j' < Suc j"
        then show "\<not> slot_free t (cut_same_note g t n (h ! ((a # slots) ! j')))"
          using False j(5) by (cases j') simp_all
      qed
      with j show ?r by (intro exI [of _ "Suc j"]) simp
    next
      assume ?r
      then obtain j where j: "j < length (a # slots)" "i = k + j"
        "e' = cut_same_note g t n (h ! ((a # slots) ! j))" "slot_free t e'"
        "\<forall>j' < j. \<not> slot_free t (cut_same_note g t n (h ! ((a # slots) ! j')))" by blast
      from j(3,4) False have "j \<noteq> 0" by (cases j) auto
      then obtain j0 where j0: "j = Suc j0" by (cases j) simp_all
      have "\<forall>j' < j0. \<not> slot_free t (cut_same_note g t n (h ! (slots ! j')))"
      proof (intro allI impI)
        fix j' assume "j' < j0"
        then have "Suc j' < j" using j0 by simp
        with j(5) have "\<not> slot_free t (cut_same_note g t n (h ! ((a # slots) ! Suc j')))"
          by blast
        then show "\<not> slot_free t (cut_same_note g t n (h ! (slots ! j')))" by simp
      qed
      with j j0 show ?l by (intro exI [of _ j0]) simp
    qed
    finally show ?thesis .
  qed
qed

lemma slot_free_cut_same_note:
  "slot_free tick (cut_same_note gap tick n e) \<longleftrightarrow>
     (if pitch (msg e) = n
      then tick > max (tick_abs e + gap)
                    (min (if usec_end_abs e = - 1 then tick else tick_end_abs e) (tick - gap))
      else usec_end_abs e \<noteq> - 1 \<and> tick > tick_end_abs e)"
  by (auto simp: slot_free_def cut_same_note_def Let_def)

lemma cut_same_note_fields:
  "tick_abs (cut_same_note gap tick n e) = tick_abs e"
  "msg (cut_same_note gap tick n e) = msg e"
  "pitch (msg e) = n \<Longrightarrow> tick_end_abs (cut_same_note gap tick n e) =
     max (tick_abs e + gap) (min (if usec_end_abs e = - 1 then tick else tick_end_abs e) (tick - gap))"
  "pitch (msg e) \<noteq> n \<Longrightarrow> cut_same_note gap tick n e = e"
  by (auto simp: cut_same_note_def Let_def)

lemma note_on_no_free:
  assumes "find_free_slot gap tick (pitch m) (heap A) slots 0 = None"
    and "slots = (case on_notes A (channel m) of None \<Rightarrow> [] | Some l \<Rightarrow> l)"
    and "is_long_note NS"
  shows "note_on NS gap A m tick =
     A\<lparr>heap := heap A @ [(mk_event m tick)\<lparr>tick_end_abs := tick + gap, usec_end_abs := - 1\<rparr>],
       on_notes := (on_notes A)(channel m \<mapsto> slots @ [length (heap A)]),
       note_events := dict_append (channel m, length slots) (length (heap A)) (note_events A)\<rparr>"
  using assms by (simp add: note_on_def Let_def)

lemma note_on_free:
  assumes "find_free_slot gap tick (pitch m) (heap A) slots 0 = Some (i, e')"
    and "slots = (case on_notes A (channel m) of None \<Rightarrow> [] | Some l \<Rightarrow> l)"
    and "is_long_note NS"
    and "slots ! i < length (heap A)"
  shows "note_on NS gap A m tick =
     A\<lparr>heap := (heap A)[slots ! i := (heap A ! (slots ! i))
                   \<lparr>tick_end_abs := tick_end_abs e', usec_end_abs := usec_end_abs e'\<rparr>]
                @ [(mk_event m tick)\<lparr>tick_end_abs := tick + gap, usec_end_abs := - 1\<rparr>],
       on_notes := (on_notes A)(channel m \<mapsto> slots[i := length (heap A)]),
       note_events := dict_append (channel m, i) (length (heap A)) (note_events A)\<rparr>"
  using assms by (simp add: note_on_def Let_def list_update_append1 nth_append)

text \<open>
  Claim C6, as the code has it. In sustain mode, for a note-on of pitch \<open>pitch m\<close> at
  \<open>tick\<close>, a slot counts as free when its occupant, after the same-pitch cut, is marked
  ended and ends strictly before \<open>tick\<close>: for an occupant of another pitch that is
  "already ended, with end tick < tick" (no gap is asked for), for an occupant of the
  same pitch it is "tick > max(start + gap, min(rawEnd, tick - gap))", where \<open>rawEnd\<close>
  is \<open>tick\<close> when the occupant is still open. If no slot is free the note is appended
  as a new polyphony position. Otherwise the lowest-indexed free slot is reused: the
  note takes the slot and is appended to that lane, and the replaced occupant keeps the
  end and the ended-mark of its cut copy, so it ends before \<open>tick\<close>; a same-pitch
  occupant's end is the clamp value, an occupant of another pitch is untouched, and so
  is every occupant the loop has passed over.
\<close>

theorem note_on_slot_reuse:
  assumes long: "is_long_note NS"
    and slots: "slots = (case on_notes A (channel m) of None \<Rightarrow> [] | Some l \<Rightarrow> l)"
    and wf: "\<forall>a \<in> set slots. a < length (heap A)"
  shows "(slot_free tick (cut_same_note gap tick (pitch m) e) \<longleftrightarrow>
            (if pitch (msg e) = pitch m
             then tick > max (tick_abs e + gap)
                           (min (if usec_end_abs e = - 1 then tick else tick_end_abs e) (tick - gap))
             else usec_end_abs e \<noteq> - 1 \<and> tick > tick_end_abs e)) \<and>
    ((\<forall>a \<in> set slots. \<not> slot_free tick (cut_same_note gap tick (pitch m) (heap A ! a))) \<longrightarrow>
            note_on NS gap A m tick =
              A\<lparr>heap := heap A @ [(mk_event m tick)\<lparr>tick_end_abs := tick + gap, usec_end_abs := - 1\<rparr>],
                on_notes := (on_notes A)(channel m \<mapsto> slots @ [length (heap A)]),
                note_events := dict_append (channel m, length slots) (length (heap A)) (note_events A)\<rparr>) \<and>
    (i < length slots \<longrightarrow>
          slot_free tick (cut_same_note gap tick (pitch m) (heap A ! (slots ! i))) \<longrightarrow>
          (\<forall>j < i. \<not> slot_free tick (cut_same_note gap tick (pitch m) (heap A ! (slots ! j)))) \<longrightarrow>
            on_notes (note_on NS gap A m tick) (channel m) = Some (slots[i := length (heap A)]) \<and>
            note_events (note_on NS gap A m tick) =
              dict_append (channel m, i) (length (heap A)) (note_events A) \<and>
            heap (note_on NS gap A m tick) ! length (heap A) =
              (mk_event m tick)\<lparr>tick_end_abs := tick + gap, usec_end_abs := - 1\<rparr> \<and>
            tick_end_abs (heap (note_on NS gap A m tick) ! (slots ! i)) < tick \<and>
            usec_end_abs (heap (note_on NS gap A m tick) ! (slots ! i)) \<noteq> - 1 \<and>
            (pitch (msg (heap A ! (slots ! i))) = pitch m \<longrightarrow>
               tick_end_abs (heap (note_on NS gap A m tick) ! (slots ! i)) =
                 max (tick_abs (heap A ! (slots ! i)) + gap)
                     (min (if usec_end_abs (heap A ! (slots ! i)) = - 1 then tick
                           else tick_end_abs (heap A ! (slots ! i))) (tick - gap))) \<and>
            (pitch (msg (heap A ! (slots ! i))) \<noteq> pitch m \<longrightarrow>
               heap (note_on NS gap A m tick) ! (slots ! i) = heap A ! (slots ! i)) \<and>
            (\<forall>a < length (heap A). a \<noteq> slots ! i \<longrightarrow>
               heap (note_on NS gap A m tick) ! a = heap A ! a))"
proof -
  have c1: "slot_free tick (cut_same_note gap tick (pitch m) e) \<longleftrightarrow>
           (if pitch (msg e) = pitch m
            then tick > max (tick_abs e + gap)
                          (min (if usec_end_abs e = - 1 then tick else tick_end_abs e) (tick - gap))
            else usec_end_abs e \<noteq> - 1 \<and> tick > tick_end_abs e)"
    by (rule slot_free_cut_same_note)
  have c2: "(\<forall>a \<in> set slots. \<not> slot_free tick (cut_same_note gap tick (pitch m) (heap A ! a))) \<longrightarrow>
           note_on NS gap A m tick =
             A\<lparr>heap := heap A @ [(mk_event m tick)\<lparr>tick_end_abs := tick + gap, usec_end_abs := - 1\<rparr>],
               on_notes := (on_notes A)(channel m \<mapsto> slots @ [length (heap A)]),
               note_events := dict_append (channel m, length slots) (length (heap A)) (note_events A)\<rparr>"
    using note_on_no_free [OF _ slots long] by (simp add: find_free_slot_None)
  have c3: "i < length slots \<longrightarrow>
         slot_free tick (cut_same_note gap tick (pitch m) (heap A ! (slots ! i))) \<longrightarrow>
         (\<forall>j < i. \<not> slot_free tick (cut_same_note gap tick (pitch m) (heap A ! (slots ! j)))) \<longrightarrow>
           on_notes (note_on NS gap A m tick) (channel m) = Some (slots[i := length (heap A)]) \<and>
           note_events (note_on NS gap A m tick) =
             dict_append (channel m, i) (length (heap A)) (note_events A) \<and>
           heap (note_on NS gap A m tick) ! length (heap A) =
             (mk_event m tick)\<lparr>tick_end_abs := tick + gap, usec_end_abs := - 1\<rparr> \<and>
           tick_end_abs (heap (note_on NS gap A m tick) ! (slots ! i)) < tick \<and>
           usec_end_abs (heap (note_on NS gap A m tick) ! (slots ! i)) \<noteq> - 1 \<and>
           (pitch (msg (heap A ! (slots ! i))) = pitch m \<longrightarrow>
              tick_end_abs (heap (note_on NS gap A m tick) ! (slots ! i)) =
                max (tick_abs (heap A ! (slots ! i)) + gap)
                    (min (if usec_end_abs (heap A ! (slots ! i)) = - 1 then tick
                          else tick_end_abs (heap A ! (slots ! i))) (tick - gap))) \<and>
           (pitch (msg (heap A ! (slots ! i))) \<noteq> pitch m \<longrightarrow>
              heap (note_on NS gap A m tick) ! (slots ! i) = heap A ! (slots ! i)) \<and>
           (\<forall>a < length (heap A). a \<noteq> slots ! i \<longrightarrow>
              heap (note_on NS gap A m tick) ! a = heap A ! a)"
  proof (intro impI)
    let ?o = "heap A ! (slots ! i)"
    let ?e' = "cut_same_note gap tick (pitch m) ?o"
    assume i: "i < length slots" and free: "slot_free tick ?e'"
      and least: "\<forall>j < i. \<not> slot_free tick (cut_same_note gap tick (pitch m) (heap A ! (slots ! j)))"
    have found: "find_free_slot gap tick (pitch m) (heap A) slots 0 = Some (i, ?e')"
      unfolding find_free_slot_Some using i free least by (intro exI [of _ i]) simp
    have b: "slots ! i < length (heap A)" using wf i by simp
    note eq = note_on_free [OF found slots long b]
    have fr: "usec_end_abs ?e' \<noteq> - 1" "tick_end_abs ?e' < tick"
      using free by (simp_all add: slot_free_def)
    show "on_notes (note_on NS gap A m tick) (channel m) = Some (slots[i := length (heap A)]) \<and>
           note_events (note_on NS gap A m tick) =
             dict_append (channel m, i) (length (heap A)) (note_events A) \<and>
           heap (note_on NS gap A m tick) ! length (heap A) =
             (mk_event m tick)\<lparr>tick_end_abs := tick + gap, usec_end_abs := - 1\<rparr> \<and>
           tick_end_abs (heap (note_on NS gap A m tick) ! (slots ! i)) < tick \<and>
           usec_end_abs (heap (note_on NS gap A m tick) ! (slots ! i)) \<noteq> - 1 \<and>
           (pitch (msg ?o) = pitch m \<longrightarrow>
              tick_end_abs (heap (note_on NS gap A m tick) ! (slots ! i)) =
                max (tick_abs ?o + gap)
                    (min (if usec_end_abs ?o = - 1 then tick else tick_end_abs ?o) (tick - gap))) \<and>
           (pitch (msg ?o) \<noteq> pitch m \<longrightarrow>
              heap (note_on NS gap A m tick) ! (slots ! i) = ?o) \<and>
           (\<forall>a < length (heap A). a \<noteq> slots ! i \<longrightarrow>
              heap (note_on NS gap A m tick) ! a = heap A ! a)"
      unfolding eq using b fr
      by (auto simp: nth_append cut_same_note_fields)
  qed
  from c1 c2 c3 show ?thesis by blast
qed

theorem note_on_slot_reuse_witness:
  "is_long_note (CHR ''7'') \<and>
   note_events (note_on (CHR ''7'') 10 empty_assigner (NoteOn 0 60 100) 0) = [((0, 0), [0])] \<and>
   on_notes (note_on (CHR ''7'') 10
      \<lparr>heap = [(mk_event (NoteOn 0 60 100) 0)\<lparr>tick_end_abs := 100, usec_end_abs := - 2\<rparr>],
        on_notes = [0 \<mapsto> [0]], note_events = [((0, 0), [0])]\<rparr> (NoteOn 0 60 100) 105) 0
     = Some [1] \<and>
   note_events (note_on (CHR ''7'') 10
      \<lparr>heap = [(mk_event (NoteOn 0 60 100) 0)\<lparr>tick_end_abs := 100, usec_end_abs := - 2\<rparr>],
        on_notes = [0 \<mapsto> [0]], note_events = [((0, 0), [0])]\<rparr> (NoteOn 0 60 100) 105)
     = [((0, 0), [0, 1])] \<and>
   tick_end_abs (heap (note_on (CHR ''7'') 10
      \<lparr>heap = [(mk_event (NoteOn 0 60 100) 0)\<lparr>tick_end_abs := 100, usec_end_abs := - 2\<rparr>],
        on_notes = [0 \<mapsto> [0]], note_events = [((0, 0), [0])]\<rparr> (NoteOn 0 60 100) 105) ! 0)
     = 95"
proof -
  let ?o = "(mk_event (NoteOn 0 60 100) 0)\<lparr>tick_end_abs := 100, usec_end_abs := - 2\<rparr>"
  let ?A = "\<lparr>heap = [?o], on_notes = [0 \<mapsto> [0]], note_events = [((0, 0), [0])]\<rparr>"
  let ?m = "NoteOn 0 60 100"
  have long: "is_long_note (CHR ''7'')" by (simp add: is_long_note_def LONG_NOTES_def)
  have s0: "[] = (case on_notes empty_assigner (channel ?m) of None \<Rightarrow> [] | Some l \<Rightarrow> l)"
    by (simp add: empty_assigner_def)
  have wf0: "\<forall>a \<in> set ([] :: nat list). a < length (heap empty_assigner)" by simp
  from note_on_slot_reuse [OF long s0 wf0, of 0 10]
  have 1: "note_events (note_on (CHR ''7'') 10 empty_assigner ?m 0) = [((0, 0), [0])]"
    by (simp add: empty_assigner_def)
  have s1: "[0] = (case on_notes ?A (channel ?m) of None \<Rightarrow> [] | Some l \<Rightarrow> l)" by simp
  have wf1: "\<forall>a \<in> set [0::nat]. a < length (heap ?A)" by simp
  have free: "slot_free 105 (cut_same_note 10 105 (pitch ?m) (heap ?A ! ([0] ! 0)))"
    using note_on_slot_reuse [OF long s1 wf1, of 105 10 "heap ?A ! ([0] ! 0)"]
    by (simp add: mk_event_def)
  from note_on_slot_reuse [OF long s1 wf1, of 105 10 _ 0] free
  have 2: "on_notes (note_on (CHR ''7'') 10 ?A ?m 105) 0 = Some [1]"
    and 3: "note_events (note_on (CHR ''7'') 10 ?A ?m 105) = [((0, 0), [0, 1])]"
    and 4: "tick_end_abs (heap (note_on (CHR ''7'') 10 ?A ?m 105) ! 0) = 95"
    by (simp_all add: mk_event_def)
  from long 1 2 3 4 show ?thesis by blast
qed

text \<open>
  Claim C6 as stated fails. With a gap of 10 ticks, a note of pitch 60 held from tick 0
  to tick 100 and a note of pitch 62 starting at tick 101: the second note reuses slot
  0 (both land in lane \<open>(0, 0)\<close>), though its occupant ended only 1 tick before the new
  start and its end stays at 100.
\<close>

theorem slot_reuse_without_gap_counterexample:
  "note_events (assign_lanes (CHR ''7'') 10
      [mk_event (NoteOn 0 60 100) 0, mk_event (NoteOff 0 60 64) 100,
       mk_event (NoteOn 0 62 100) 101]) = [((0, 0), [0, 1])] \<and>
   on_notes (assign_lanes (CHR ''7'') 10
      [mk_event (NoteOn 0 60 100) 0, mk_event (NoteOff 0 60 64) 100,
       mk_event (NoteOn 0 62 100) 101]) 0 = Some [1] \<and>
   map tick_abs (heap (assign_lanes (CHR ''7'') 10
      [mk_event (NoteOn 0 60 100) 0, mk_event (NoteOff 0 60 64) 100,
       mk_event (NoteOn 0 62 100) 101])) = [0, 101] \<and>
   map tick_end_abs (heap (assign_lanes (CHR ''7'') 10
      [mk_event (NoteOn 0 60 100) 0, mk_event (NoteOff 0 60 64) 100,
       mk_event (NoteOn 0 62 100) 101])) = [100, 111] \<and>
   \<not> (100 \<le> (101::int) - 10)"
  by code_simp


















text \<open>
  With a gap of 0 ticks (the default fraction 1/192 at fewer than 48 ticks per beat) a
  note-on that no note-off closes ends at its own start and is dropped.
\<close>

lemma unterminated_note_dropped_at_zero_gap:
  "ticks_gap_of (CHR ''7'') 24 (1 / 192) = 0 \<and>
   lanes_of (CHR ''7'') (assign_lanes (CHR ''7'') 0 [mk_event (NoteOn 0 60 100) 0]) =
     [((0, 0), [])]"
  by code_simp

section \<open>Balloon counts\<close>




section \<open>A signature change inside a measure: where the cursor goes\<close>

text \<open>
  Claim C2 at a failing input. 480 ticks per beat, a change to 8/4 at tick 480 (inside
  the first 4/4 measure of 1920 ticks), and a note of pitch 69 from tick 2000 to 2100
  and again from 2200 to 2300. The lane assignor (gap 10) and the merge give the
  timeline below. The note-on at tick 2000 makes \<open>scan_chart\<close> flush the first
  measure; that flush handles the signature change, so the \<open>advance_measure\<close> after
  it moves the cursor by the new length 3840 instead of the flushed measure's 1920.
  The four note events are then flushed in the measure from 3840 to 7680, before whose
  start they all lie: the unit is 3840, and the cell index of the note at tick 2000 is
  \<open>(2000 - 3840) // 3840 = -1\<close>, which is not an exact division.
\<close>

theorem cell_index_inexact_after_mid_measure_signature:
  "lanes_of (CHR ''7'') (assign_lanes (CHR ''7'') 10
      [mk_event (NoteOn 0 69 100) 2000, mk_event (NoteOff 0 69 64) 2100,
       mk_event (NoteOn 0 69 100) 2200, mk_event (NoteOff 0 69 64) 2300]) =
     [((0, 0),
       [(mk_event (NoteOn 0 69 100) 2000)\<lparr>tick_end_abs := 2100, usec_end_abs := - 2\<rparr>,
        mk_event (NoteOff 0 69 64) 2100,
        (mk_event (NoteOn 0 69 100) 2200)\<lparr>tick_end_abs := 2300, usec_end_abs := - 2\<rparr>,
        mk_event (NoteOff 0 69 64) 2300])] \<and>
   chart_events (CHR ''7'') (init_state 480)
      (merge_sorted [mk_event (TimeSignature 8 4) 480]
        [(mk_event (NoteOn 0 69 100) 2000)\<lparr>tick_end_abs := 2100, usec_end_abs := - 2\<rparr>,
         mk_event (NoteOff 0 69 64) 2100,
         (mk_event (NoteOn 0 69 100) 2200)\<lparr>tick_end_abs := 2300, usec_end_abs := - 2\<rparr>,
         mk_event (NoteOff 0 69 64) 2300]) None 0 [0..<5] =
     Some (Inr ((init_state 480)\<lparr>tsign_upper := 8, tsign_lower := 4, tick_measure_begin := 3840\<rparr>,
       [mk_event (TimeSignature 8 4) 480,
        (mk_event (NoteOn 0 69 100) 2000)\<lparr>tick_end_abs := 2100, usec_end_abs := - 2\<rparr>,
        mk_event (NoteOff 0 69 64) 2100,
        (mk_event (NoteOn 0 69 100) 2200)\<lparr>tick_end_abs := 2300, usec_end_abs := - 2\<rparr>,
        mk_event (NoteOff 0 69 64) 2300], None, 1)) \<and>
   get_tick_measure_end
      ((init_state 480)\<lparr>tsign_upper := 8, tsign_lower := 4, tick_measure_begin := 3840\<rparr>) =
     Inr 7680 \<and>
   tick_gcd_of
      [mk_event (TimeSignature 8 4) 480,
       (mk_event (NoteOn 0 69 100) 2000)\<lparr>tick_end_abs := 2100, usec_end_abs := - 2\<rparr>,
       mk_event (NoteOff 0 69 64) 2100,
       (mk_event (NoteOn 0 69 100) 2200)\<lparr>tick_end_abs := 2300, usec_end_abs := - 2\<rparr>,
       mk_event (NoteOff 0 69 64) 2300] 1 5 3840 7680 = 3840 \<and>
   floordiv (2000 - 3840) 3840 = Inr (- 1) \<and>
   (- 1) * 3840 \<noteq> (2000::int) - 3840"
  by code_simp

text \<open>
  Claim C3 at the same input. Both passes run to the end. The silent pass leaves a
  balloon list of two records (the note-ons at positions 1 and 3 of the timeline), so
  the \<open>BALLOON:\<close> line has two counts; the chart written by the second pass holds a
  single balloon-close symbol \<open>'8'\<close> and no balloon-open symbol at all, the four note
  events having been written over one another in the first cell of the last measure.
\<close>

theorem passes_disagree_after_mid_measure_signature:
  "scan_chart (CHR ''7'') (init_state 480)
      (merge_sorted [mk_event (TimeSignature 8 4) 480]
        [(mk_event (NoteOn 0 69 100) 2000)\<lparr>tick_end_abs := 2100, usec_end_abs := - 2\<rparr>,
         mk_event (NoteOff 0 69 64) 2100,
         (mk_event (NoteOn 0 69 100) 2200)\<lparr>tick_end_abs := 2300, usec_end_abs := - 2\<rparr>,
         mk_event (NoteOff 0 69 64) 2300]) None =
     Some (Inr ((init_state 480)\<lparr>tsign_upper := 8, tsign_lower := 4, tick_measure_begin := 3840,
                                   balloons := Some [1, 3]\<rparr>,
       [mk_event (TimeSignature 8 4) 480,
        (mk_event (NoteOn 0 69 100) 2000)
          \<lparr>tick_end_abs := 2100, usec_abs := 2083333, usec_end_abs := 2187500\<rparr>,
        mk_event (NoteOff 0 69 64) 2100,
        (mk_event (NoteOn 0 69 100) 2200)
          \<lparr>tick_end_abs := 2300, usec_abs := 2291666, usec_end_abs := 2395833\<rparr>,
        mk_event (NoteOff 0 69 64) 2300], None)) \<and>
   scan_chart (CHR ''7'') (init_state 480)
       [mk_event (TimeSignature 8 4) 480,
        (mk_event (NoteOn 0 69 100) 2000)
          \<lparr>tick_end_abs := 2100, usec_abs := 2083333, usec_end_abs := 2187500\<rparr>,
        mk_event (NoteOff 0 69 64) 2100,
        (mk_event (NoteOn 0 69 100) 2200)
          \<lparr>tick_end_abs := 2300, usec_abs := 2291666, usec_end_abs := 2395833\<rparr>,
        mk_event (NoteOff 0 69 64) 2300] (Some []) =
     Some (Inr ((init_state 480)\<lparr>tsign_upper := 8, tsign_lower := 4, tick_measure_begin := 3840,
                                   balloons := Some [1, 3]\<rparr>,
       [mk_event (TimeSignature 8 4) 480,
        (mk_event (NoteOn 0 69 100) 2000)
          \<lparr>tick_end_abs := 2100, usec_abs := 2083333, usec_end_abs := 2187500\<rparr>,
        mk_event (NoteOff 0 69 64) 2100,
        (mk_event (NoteOn 0 69 100) 2200)
          \<lparr>tick_end_abs := 2300, usec_abs := 2291666, usec_end_abs := 2395833\<rparr>,
        mk_event (NoteOff 0 69 64) 2300],
       Some [Cells ''0'', Newline, MeasureLine 8 4, Cells ''000'', MeasureEnd,
             Cells ''8'', MeasureEnd])) \<and>
   length [1::nat, 3] = 2 \<and>
   symbol_count (CHR ''8'')
     [Cells ''0'', Newline, MeasureLine 8 4, Cells ''000'', MeasureEnd, Cells ''8'', MeasureEnd] = 1 \<and>
   symbol_count (CHR ''7'')
     [Cells ''0'', Newline, MeasureLine 8 4, Cells ''000'', MeasureEnd, Cells ''8'', MeasureEnd] = 0"
  by code_simp

section \<open>The two passes\<close>

lemma silence_fields [simp]:
  "ml_state (silence L) = ml_state L"
  "ml_events (silence L) = ml_events L"
  "ml_tja (silence L) = None"
  "is_line_start (silence L) = is_line_start L"
  "idiv_last (silence L) = idiv_last L"
  "note_symbol_last (silence L) = note_symbol_last L"
  by (simp_all add: silence_def)

lemma advance_cells_silence: "advance_cells (silence L) idiv = silence (advance_cells L idiv)"
  by (simp add: advance_cells_def silence_def)

lemma ensure_line_start_silence: "ensure_line_start (silence L) = silence (ensure_line_start L)"
  by (simp add: ensure_line_start_def silence_def)

lemma silence_update_state: "(silence L)\<lparr>ml_state := s\<rparr> = silence (L\<lparr>ml_state := s\<rparr>)"
  by (simp add: silence_def)

lemma handle_event_silence:
  "handle_event NS (silence L) i e = map_sum id silence (handle_event NS L i e)"
proof (cases "msg e")
  case (TimeSignature n d)
  then show ?thesis
    by (simp add: handle_event_def Let_def silence_update_state ensure_line_start_silence)
next
  case (SetTempo t)
  show ?thesis
  proof (cases "apply_set_tempo (ml_state L) (tick_abs e) t")
    case (Inl err)
    with SetTempo show ?thesis by (simp add: handle_event_def Let_def)
  next
    case (Inr s')
    show ?thesis
    proof (cases "tempo2bpm (usec_per_beat s')")
      case (Inl err)
      with SetTempo \<open>apply_set_tempo (ml_state L) (tick_abs e) t = Inr s'\<close> show ?thesis
        by (simp add: handle_event_def Let_def)
    next
      case (Inr bpm)
      with SetTempo \<open>apply_set_tempo (ml_state L) (tick_abs e) t = Inr s'\<close> show ?thesis
        by (simp add: handle_event_def Let_def silence_update_state ensure_line_start_silence)
    qed
  qed
next
  case (NoteOn c p v)
  show ?thesis
  proof (cases "get_usec_at (ml_state L) (tick_abs e)")
    case (Inl err)
    with NoteOn show ?thesis
      by (cases "balloon_open (ml_state L) (ml_events L)")
         (simp_all add: handle_event_def Let_def silence_def)
  next
    case (Inr u)
    with NoteOn show ?thesis
      by (cases "balloon_open (ml_state L) (ml_events L)")
         (simp_all add: handle_event_def Let_def silence_def)
  qed
next
  case (NoteOff c p v)
  show ?thesis
  proof (cases "get_usec_at (ml_state L) (tick_abs e)")
    case (Inl err)
    with NoteOff show ?thesis
      by (cases "balloon_open (ml_state L) (ml_events L)")
         (simp_all add: handle_event_def Let_def silence_def)
  next
    case (Inr u)
    with NoteOff show ?thesis
      by (cases "balloon_open (ml_state L) (ml_events L)")
         (simp_all add: handle_event_def Let_def silence_def)
  qed
qed

lemma scan_event_silence:
  "scan_event NS b g (silence L) i = map_sum id silence (scan_event NS b g L i)"
  by (cases "floordiv (tick_abs (ml_events L ! i) - b) g")
     (simp_all add: scan_event_def Let_def advance_cells_silence handle_event_silence)

lemma scan_events_silence:
  "scan_events NS b g (silence L) is = map_sum id silence (scan_events NS b g L is)"
proof (induction "is" arbitrary: L)
  case Nil
  then show ?case by simp
next
  case (Cons i "is")
  then show ?case
    by (cases "scan_event NS b g L i") (simp_all add: scan_event_silence)
qed

lemma scan_measure_silent:
  "scan_measure NS s events lo hi None = map_sum id silent3 (scan_measure NS s events lo hi tja)"
proof (cases "get_tick_measure_end s")
  case (Inl err)
  then show ?thesis by (simp add: scan_measure_def)
next
  case (Inr tick_end)
  let ?g = "tick_gcd_of events lo hi (tick_measure_begin s) tick_end"
  let ?L0 = "\<lparr>ml_state = s, ml_events = events, ml_tja = tja, is_line_start = True,
            idiv_last = 0, note_symbol_last = CHR ''0''\<rparr>"
  have L0: "\<lparr>ml_state = s, ml_events = events, ml_tja = None, is_line_start = True,
            idiv_last = 0, note_symbol_last = CHR ''0''\<rparr> = silence ?L0"
    by (simp add: silence_def)
  show ?thesis
  proof (cases "lo < hi \<and> length events < hi")
    case True
    with Inr show ?thesis by (simp add: scan_measure_def)
  next
    case False
    show ?thesis
    proof (cases "scan_events NS (tick_measure_begin s) ?g ?L0 [lo..<hi]")
      case (Inl err)
      with Inr False show ?thesis
        by (auto simp add: scan_measure_def Let_def L0 scan_events_silence)
    next
      case (Inr L)
      with \<open>get_tick_measure_end s = Inr tick_end\<close> False show ?thesis
        by (cases "floordiv (tick_end - tick_measure_begin s) ?g")
           (auto simp add: scan_measure_def Let_def L0 scan_events_silence silent3_def)
    qed
  qed
qed

lemma step_over_measures_silent:
  "step_over_measures NS t i s events None ib =
     map_option (map_sum id silent4) (step_over_measures NS t i s events tja ib)"
proof (induction "nat (t - tick_measure_begin s)" arbitrary: s events tja ib rule: less_induct)
  case less
  note u1 = step_over_measures.simps [of NS t i s events None ib]
  note u2 = step_over_measures.simps [of NS t i s events tja ib]
  show ?case
  proof (cases "get_tick_measure_end s")
    case (Inl err)
    then show ?thesis by (simp add: u1 u2)
  next
    case (Inr tick_end)
    note te = Inr
    show ?thesis
    proof (cases "tick_end \<le> t")
      case False
      with te show ?thesis by (simp add: u1 u2 silent4_def)
    next
      case True
      note sil = scan_measure_silent [of NS s events ib i tja]
      show ?thesis
      proof (cases "scan_measure NS s events ib i tja")
        case (Inl err)
        with te True sil show ?thesis by (simp add: u1 u2)
      next
        case (Inr res1)
        obtain s1 events1 tja1 where res1: "res1 = (s1, events1, tja1)" by (cases res1)
        from Inr res1 have sm: "scan_measure NS s events ib i tja = Inr (s1, events1, tja1)"
          by simp
        with sil have sm0: "scan_measure NS s events ib i None = Inr (s1, events1, None)"
          by (simp add: silent3_def)
        show ?thesis
        proof (cases "advance_measure s1")
          case (Inl err)
          with te True sm sm0 show ?thesis by (simp add: u1 u2)
        next
          case (Inr s2)
          have "tick_measure_begin s1 = tick_measure_begin s"
            using scan_measure_frame [OF sm] by simp
          moreover have "tick_measure_begin s < t"
            using te True by (auto simp: get_tick_measure_end_eq_Inr)
          moreover have "tick_measure_begin s1 < tick_measure_begin s2"
            using Inr by (auto simp: advance_measure_eq_Inr)
          ultimately have "nat (t - tick_measure_begin s2) < nat (t - tick_measure_begin s)"
            by simp
          from less [OF this, of events1 i tja1] te True sm sm0 Inr
          show ?thesis by (simp add: u1 u2)
        qed
      qed
    qed
  qed
qed

lemma chart_event_silent:
  "chart_event NS s events None ib i =
     map_option (map_sum id silent4) (chart_event NS s events tja ib i)"
proof -
  note so = step_over_measures_silent [of NS "tick_abs (events ! i)" i s events ib tja]
  show ?thesis
  proof (cases "step_over_measures NS (tick_abs (events ! i)) i s events tja ib")
    case None
    with so show ?thesis by (simp add: chart_event_def Let_def)
  next
    case (Some r)
    show ?thesis
    proof (cases r)
      case (Inl err)
      with Some so show ?thesis by (simp add: chart_event_def Let_def)
    next
      case (Inr x)
      obtain s1 events1 tja1 ib1 where "x = (s1, events1, tja1, ib1)" by (cases x)
      with Some Inr so show ?thesis by (simp add: chart_event_def Let_def silent4_def)
    qed
  qed
qed

lemma chart_events_silent:
  "chart_events NS s events None ib is =
     map_option (map_sum id silent4) (chart_events NS s events tja ib is)"
proof (induction "is" arbitrary: s events tja ib)
  case Nil
  then show ?case by (simp add: silent4_def)
next
  case (Cons i "is")
  note ce = chart_event_silent [of NS s events ib i tja]
  show ?case
  proof (cases "chart_event NS s events tja ib i")
    case None
    with ce show ?thesis by simp
  next
    case (Some r)
    show ?thesis
    proof (cases r)
      case (Inl err)
      with Some ce show ?thesis by simp
    next
      case (Inr x)
      obtain s1 events1 tja1 ib1 where "x = (s1, events1, tja1, ib1)" by (cases x)
      with Some Inr ce Cons.IH [of s1 events1 ib1 tja1] show ?thesis
        by (simp add: silent4_def)
    qed
  qed
qed

text \<open>
  The silent pass and the writing pass are the same function of the state and the
  timeline: the silent pass returns what the writing pass returns, with the output
  dropped. So both passes raise or return together, flush the same measures with the
  same units, and leave the same state, balloon list and event times.
\<close>

lemma scan_chart_silent:
  "scan_chart NS s events None = map_option (map_sum id silent3) (scan_chart NS s events tja)"
proof -
  note ce = chart_events_silent [of NS s events 0 "[0..<length events]" tja]
  show ?thesis
  proof (cases "chart_events NS s events tja 0 [0..<length events]")
    case None
    with ce show ?thesis by (simp add: scan_chart_def)
  next
    case (Some r)
    show ?thesis
    proof (cases r)
      case (Inl err)
      with Some ce show ?thesis by (simp add: scan_chart_def)
    next
      case (Inr x)
      obtain s1 events1 tja1 ib1 where "x = (s1, events1, tja1, ib1)" by (cases x)
      with Some Inr ce scan_measure_silent [of NS s1 events1 ib1 "length events1" tja1]
      show ?thesis by (simp add: scan_chart_def silent4_def)
    qed
  qed
qed

end
